theory Spec2Isabelle
  imports Complex_Main
begin

unbundle bit_operations_syntax

section \<open>Data model (include/gemm.h)\<close>

text \<open>
  The kernels work through raw \<^verbatim>\<open>float *\<close> pointers, and nothing stops two
  matrix views from sharing storage, so memory is one explicit store from addresses
  (counted in floats) to values.  A pointer is \<open>None\<close> (the null pointer) or an
  address.  Element values are idealised as real numbers: the rounding of IEEE-754
  single precision is not part of this model.  Dimensions and indices are
  mathematical integers; the source's \<^verbatim>\<open>int\<close> expressions agree with them as long
  as they stay in range (signed overflow is undefined in C++).
\<close>

type_synonym addr = int
type_synonym mem = "addr \<Rightarrow> real"

record Matrix =
  data :: "addr option"
  h :: int
  w :: int

text \<open>\<^verbatim>\<open>constexpr float EPSILON = 1e-5;\<close>\<close>

definition EPSILON :: real where
  "EPSILON = 1 / 100000"

text \<open>
  Modelled from the spec: the macro \<^verbatim>\<open>__ARM_NEON\<close> is set by the compiler, not by
  the repository.  The spec describes the build in which the vector kernels exist
  (section 4.3, layers 3 and 4), so the guarded regions are compiled in.
\<close>

definition ARM_NEON :: bool where
  "ARM_NEON = True"

section \<open>Loops and statements\<close>

text \<open>
  \<^verbatim>\<open>for (; j < n; j++) body\<close> and \<^verbatim>\<open>for (; j < n; j += 4) body\<close>, started at a
  given counter; the result is the counter after the loop and the store.
\<close>

function for_inc :: "int \<Rightarrow> int \<Rightarrow> (int \<Rightarrow> 's \<Rightarrow> 's) \<Rightarrow> 's \<Rightarrow> int \<times> 's" where
  "for_inc j n body s = (if j < n then for_inc (j + 1) n body (body j s) else (j, s))"
  by pat_completeness auto
termination
  by (relation "measure (\<lambda>(j, n, body, s). nat (n - j))") auto

function for_add4 :: "int \<Rightarrow> int \<Rightarrow> (int \<Rightarrow> 's \<Rightarrow> 's) \<Rightarrow> 's \<Rightarrow> int \<times> 's" where
  "for_add4 j n body s = (if j < n then for_add4 (j + 4) n body (body j s) else (j, s))"
  by pat_completeness auto
termination
  by (relation "measure (\<lambda>(j, n, body, s). nat (n - j))") auto

declare for_inc.simps [simp del]
declare for_add4.simps [simp del]

text \<open>\<^verbatim>\<open>for (int i = 0; i < n; i++)\<close> and \<^verbatim>\<open>for (int i = 0; i < n; i += 4)\<close>:
  the counter is local to the loop.\<close>

definition for_range :: "int \<Rightarrow> (int \<Rightarrow> 's \<Rightarrow> 's) \<Rightarrow> 's \<Rightarrow> 's" where
  "for_range n body s = snd (for_inc 0 n body s)"

definition for_range4 :: "int \<Rightarrow> (int \<Rightarrow> 's \<Rightarrow> 's) \<Rightarrow> 's \<Rightarrow> 's" where
  "for_range4 n body s = snd (for_add4 0 n body s)"

text \<open>A block of statements, run in order.\<close>

fun seq :: "('s \<Rightarrow> 's) list \<Rightarrow> 's \<Rightarrow> 's" where
  "seq [] s = s"
| "seq (f # fs) s = seq fs (f s)"

text \<open>The statement \<^verbatim>\<open>pC[x] += a0 * pB[y];\<close>\<close>

definition acc_mul :: "addr \<Rightarrow> int \<Rightarrow> real \<Rightarrow> addr \<Rightarrow> int \<Rightarrow> mem \<Rightarrow> mem" where
  "acc_mul pC x a0 pB y s = s(pC + x := s (pC + x) + a0 * s (pB + y))"

section \<open>The NEON intrinsics the kernels use\<close>

text \<open>A vector of four floats is a 4-tuple; \<open>vgetq_lane_f32\<close> reads one lane and serves
  to define the two lane-wise operations.\<close>

type_synonym float32x4_t = "real \<times> real \<times> real \<times> real"

definition vld1q_f32 :: "addr \<Rightarrow> mem \<Rightarrow> float32x4_t" where
  "vld1q_f32 p s = (s p, s (p + 1), s (p + 2), s (p + 3))"

definition vst1q_f32 :: "addr \<Rightarrow> float32x4_t \<Rightarrow> mem \<Rightarrow> mem" where
  "vst1q_f32 p v s =
     (case v of (v0, v1, v2, v3) \<Rightarrow> s(p := v0, p + 1 := v1, p + 2 := v2, p + 3 := v3))"

definition vdupq_n_f32 :: "real \<Rightarrow> float32x4_t" where
  "vdupq_n_f32 x = (x, x, x, x)"

definition vgetq_lane_f32 :: "float32x4_t \<Rightarrow> nat \<Rightarrow> real" where
  "vgetq_lane_f32 v n =
     (case v of (v0, v1, v2, v3) \<Rightarrow>
        if n = 0 then v0 else if n = 1 then v1 else if n = 2 then v2 else v3)"

definition vdupq_laneq_f32 :: "float32x4_t \<Rightarrow> nat \<Rightarrow> float32x4_t" where
  "vdupq_laneq_f32 v n = vdupq_n_f32 (vgetq_lane_f32 v n)"

definition vfmaq_f32 :: "float32x4_t \<Rightarrow> float32x4_t \<Rightarrow> float32x4_t \<Rightarrow> float32x4_t" where
  "vfmaq_f32 vc va vb =
     (case (vc, va, vb) of ((c0, c1, c2, c3), (a0, a1, a2, a3), (b0, b1, b2, b3)) \<Rightarrow>
        (c0 + a0 * b0, c1 + a1 * b1, c2 + a2 * b2, c3 + a3 * b3))"

definition vfmaq_laneq_f32 ::
  "float32x4_t \<Rightarrow> float32x4_t \<Rightarrow> float32x4_t \<Rightarrow> nat \<Rightarrow> float32x4_t" where
  "vfmaq_laneq_f32 vc vb va n = vfmaq_f32 vc vb (vdupq_laneq_f32 va n)"

section \<open>CheckResult and CheckParam (src/gemm.cpp)\<close>

text \<open>The two loops of \<^verbatim>\<open>CheckResult\<close>; the first pair of elements further apart
  than \<open>EPSILON\<close> ends both with \<open>False\<close>.  Both buffers are indexed with \<^verbatim>\<open>a.w\<close>.\<close>

function check_row :: "mem \<Rightarrow> addr \<Rightarrow> addr \<Rightarrow> int \<Rightarrow> int \<Rightarrow> int \<Rightarrow> bool" where
  "check_row s pa pb aw i j =
     (if j < aw then
        (if \<bar>s (pa + (i * aw + j)) - s (pb + (i * aw + j))\<bar> > EPSILON then False
         else check_row s pa pb aw i (j + 1))
      else True)"
  by pat_completeness auto
termination
  by (relation "measure (\<lambda>(s, pa, pb, aw, i, j). nat (aw - j))") auto

function check_rows :: "mem \<Rightarrow> addr \<Rightarrow> addr \<Rightarrow> int \<Rightarrow> int \<Rightarrow> int \<Rightarrow> bool" where
  "check_rows s pa pb ah aw i =
     (if i < ah then
        (if check_row s pa pb aw i 0 then check_rows s pa pb ah aw (i + 1) else False)
      else True)"
  by pat_completeness auto
termination
  by (relation "measure (\<lambda>(s, pa, pb, ah, aw, i). nat (ah - i))") auto

declare check_row.simps [simp del]
declare check_rows.simps [simp del]

definition CheckResult :: "Matrix \<Rightarrow> Matrix \<Rightarrow> mem \<Rightarrow> bool" where
  "CheckResult a b s =
     (if w a \<noteq> w b then False
      else if h a \<noteq> h b then False
      else if data a = None \<or> data b = None then False
      else check_rows s (the (data a)) (the (data b)) (h a) (w a) 0)"

definition CheckParam :: "Matrix \<Rightarrow> Matrix \<Rightarrow> Matrix \<Rightarrow> bool" where
  "CheckParam a b c =
     (if w a \<noteq> h b then False
      else if h a \<noteq> h c then False
      else if w b \<noteq> w c then False
      else if data a = None \<or> data b = None \<or> data c = None then False
      else True)"

section \<open>Statement blocks shared by several kernels\<close>

text \<open>\<^verbatim>\<open>for (; j < b.w; j++) pC[i * c.w + j] += a0 * pB[k * b.w + j];\<close>\<close>

definition loop_j_scalar ::
  "addr \<Rightarrow> addr \<Rightarrow> Matrix \<Rightarrow> Matrix \<Rightarrow> int \<Rightarrow> int \<Rightarrow> real \<Rightarrow> int \<Rightarrow> mem \<Rightarrow> int \<times> mem" where
  "loop_j_scalar pB pC b c i k a0 j s =
     for_inc j (w b) (\<lambda>j. acc_mul pC (i * w c + j) a0 pB (k * w b + j)) s"

text \<open>The \<^verbatim>\<open>j += 4\<close> loop of Optimize3 and Optimize4 (and of the scalar remainder
  in \<^verbatim>\<open>k\<close> of Optimize7 and Optimize8).\<close>

definition loop_j_unroll4 ::
  "addr \<Rightarrow> addr \<Rightarrow> Matrix \<Rightarrow> Matrix \<Rightarrow> int \<Rightarrow> int \<Rightarrow> real \<Rightarrow> int \<Rightarrow> mem \<Rightarrow> int \<times> mem" where
  "loop_j_unroll4 pB pC b c i k a0 j s =
     for_add4 j (w b AND NOT 3) (\<lambda>j. seq [
        acc_mul pC (i * w c + j) a0 pB (k * w b + j),
        acc_mul pC (i * w c + j + 1) a0 pB (k * w b + j + 1),
        acc_mul pC (i * w c + j + 2) a0 pB (k * w b + j + 2),
        acc_mul pC (i * w c + j + 3) a0 pB (k * w b + j + 3)]) s"

text \<open>The \<^verbatim>\<open>j += 4\<close> vector loop of Optimize5 and Optimize6 (and of the remainder
  in \<^verbatim>\<open>k\<close> of Optimize9 and Optimize10).\<close>

definition loop_j_simd4 ::
  "addr \<Rightarrow> addr \<Rightarrow> Matrix \<Rightarrow> Matrix \<Rightarrow> int \<Rightarrow> int \<Rightarrow> float32x4_t \<Rightarrow> int \<Rightarrow> mem \<Rightarrow> int \<times> mem" where
  "loop_j_simd4 pB pC b c i k vA0 j s =
     for_add4 j (w b AND NOT 3) (\<lambda>j s.
        let vB = vld1q_f32 (pB + (k * w b + j)) s;
            vC = vld1q_f32 (pC + (i * w c + j)) s;
            vC = vfmaq_f32 vC vA0 vB
        in vst1q_f32 (pC + (i * w c + j)) vC s) s"

text \<open>The four statements on one element of C, in the order of \<^verbatim>\<open>k\<close>.\<close>

definition acc_mul4 ::
  "addr \<Rightarrow> addr \<Rightarrow> Matrix \<Rightarrow> int \<Rightarrow> real \<Rightarrow> real \<Rightarrow> real \<Rightarrow> real \<Rightarrow> int \<Rightarrow> int \<Rightarrow> mem \<Rightarrow> mem" where
  "acc_mul4 pB pC b k a0 a1 a2 a3 x y =
     seq [
        acc_mul pC x a0 pB (k * w b + y),
        acc_mul pC x a1 pB ((k + 1) * w b + y),
        acc_mul pC x a2 pB ((k + 2) * w b + y),
        acc_mul pC x a3 pB ((k + 3) * w b + y)]"

text \<open>The \<^verbatim>\<open>j += 4\<close> loop with sixteen statements of Optimize7 and Optimize8.\<close>

definition loop_j_unroll4x4 ::
  "addr \<Rightarrow> addr \<Rightarrow> Matrix \<Rightarrow> Matrix \<Rightarrow> int \<Rightarrow> int \<Rightarrow> real \<Rightarrow> real \<Rightarrow> real \<Rightarrow> real \<Rightarrow>
   int \<Rightarrow> mem \<Rightarrow> int \<times> mem" where
  "loop_j_unroll4x4 pB pC b c i k a0 a1 a2 a3 j s =
     for_add4 j (w b AND NOT 3) (\<lambda>j. seq [
        acc_mul4 pB pC b k a0 a1 a2 a3 (i * w c + j) j,
        acc_mul4 pB pC b k a0 a1 a2 a3 (i * w c + j + 1) (j + 1),
        acc_mul4 pB pC b k a0 a1 a2 a3 (i * w c + j + 2) (j + 2),
        acc_mul4 pB pC b k a0 a1 a2 a3 (i * w c + j + 3) (j + 3)]) s"

text \<open>The remainder loop in \<^verbatim>\<open>j\<close> of Optimize7, Optimize8 and Optimize9: four
  statements, all on \<^verbatim>\<open>pC[i * c.w + j]\<close>.\<close>

definition loop_j_scalar4 ::
  "addr \<Rightarrow> addr \<Rightarrow> Matrix \<Rightarrow> Matrix \<Rightarrow> int \<Rightarrow> int \<Rightarrow> real \<Rightarrow> real \<Rightarrow> real \<Rightarrow> real \<Rightarrow>
   int \<Rightarrow> mem \<Rightarrow> int \<times> mem" where
  "loop_j_scalar4 pB pC b c i k a0 a1 a2 a3 j s =
     for_inc j (w b) (\<lambda>j. acc_mul4 pB pC b k a0 a1 a2 a3 (i * w c + j) j) s"

text \<open>The remainder loop in \<^verbatim>\<open>j\<close> of Optimize10 (lines 613 to 618): the four
  statements write \<^verbatim>\<open>pC[i * c.w + j]\<close>, \<^verbatim>\<open>[.. + 1]\<close>, \<^verbatim>\<open>[.. + 2]\<close>, \<^verbatim>\<open>[.. + 3]\<close>.\<close>

definition loop_j_scalar4_10 ::
  "addr \<Rightarrow> addr \<Rightarrow> Matrix \<Rightarrow> Matrix \<Rightarrow> int \<Rightarrow> int \<Rightarrow> real \<Rightarrow> real \<Rightarrow> real \<Rightarrow> real \<Rightarrow>
   int \<Rightarrow> mem \<Rightarrow> int \<times> mem" where
  "loop_j_scalar4_10 pB pC b c i k a0 a1 a2 a3 j s =
     for_inc j (w b) (\<lambda>j. seq [
        acc_mul pC (i * w c + j) a0 pB (k * w b + j),
        acc_mul pC (i * w c + j + 1) a1 pB ((k + 1) * w b + j),
        acc_mul pC (i * w c + j + 2) a2 pB ((k + 2) * w b + j),
        acc_mul pC (i * w c + j + 3) a3 pB ((k + 3) * w b + j)]) s"

text \<open>The \<^verbatim>\<open>j += 4\<close> vector loop with four rows of B (Optimize9 to Optimize12).\<close>

definition loop_j_simd4x4 ::
  "addr \<Rightarrow> addr \<Rightarrow> Matrix \<Rightarrow> Matrix \<Rightarrow> int \<Rightarrow> int \<Rightarrow>
   float32x4_t \<Rightarrow> float32x4_t \<Rightarrow> float32x4_t \<Rightarrow> float32x4_t \<Rightarrow> int \<Rightarrow> mem \<Rightarrow> int \<times> mem" where
  "loop_j_simd4x4 pB pC b c i k vA0 vA1 vA2 vA3 j s =
     for_add4 j (w b AND NOT 3) (\<lambda>j s.
        let vB0 = vld1q_f32 (pB + (k * w b + j)) s;
            vB1 = vld1q_f32 (pB + ((k + 1) * w b + j)) s;
            vB2 = vld1q_f32 (pB + ((k + 2) * w b + j)) s;
            vB3 = vld1q_f32 (pB + ((k + 3) * w b + j)) s;
            vC = vld1q_f32 (pC + (i * w c + j)) s;
            vC = vfmaq_f32 vC vA0 vB0;
            vC = vfmaq_f32 vC vA1 vB1;
            vC = vfmaq_f32 vC vA2 vB2;
            vC = vfmaq_f32 vC vA3 vB3
        in vst1q_f32 (pC + (i * w c + j)) vC s) s"

text \<open>One row of the 4x4 tile of Optimize13 to Optimize16: load four floats of C,
  four lane-wise multiply-adds, store.\<close>

definition tile_row ::
  "addr \<Rightarrow> float32x4_t \<Rightarrow> float32x4_t \<Rightarrow> float32x4_t \<Rightarrow> float32x4_t \<Rightarrow>
   float32x4_t \<Rightarrow> mem \<Rightarrow> mem" where
  "tile_row p vB0 vB1 vB2 vB3 vA s =
     (let vC = vld1q_f32 p s;
          vC = vfmaq_laneq_f32 vC vB0 vA 0;
          vC = vfmaq_laneq_f32 vC vB1 vA 1;
          vC = vfmaq_laneq_f32 vC vB2 vA 2;
          vC = vfmaq_laneq_f32 vC vB3 vA 3
      in vst1q_f32 p vC s)"

text \<open>The body of the \<^verbatim>\<open>j += 4\<close> loop of Optimize13 to Optimize16: four rows of B
  are loaded and a 4x4 tile of C is updated, row by row.\<close>

definition tile_step ::
  "addr \<Rightarrow> addr \<Rightarrow> Matrix \<Rightarrow> Matrix \<Rightarrow>
   float32x4_t \<Rightarrow> float32x4_t \<Rightarrow> float32x4_t \<Rightarrow> float32x4_t \<Rightarrow> int \<Rightarrow> int \<Rightarrow> int \<Rightarrow>
   mem \<Rightarrow> mem" where
  "tile_step pB pC b c vA0 vA1 vA2 vA3 bIdxBase cIdxBase j s =
     (let bIdx = bIdxBase + j;
          vB0 = vld1q_f32 (pB + bIdx) s;
          vB1 = vld1q_f32 (pB + bIdx + w b) s;
          vB2 = vld1q_f32 (pB + bIdx + w b * 2) s;
          vB3 = vld1q_f32 (pB + bIdx + w b * 3) s;
          cIdx = cIdxBase + j
      in seq [
           tile_row (pC + cIdx) vB0 vB1 vB2 vB3 vA0,
           tile_row (pC + cIdx + w c) vB0 vB1 vB2 vB3 vA1,
           tile_row (pC + cIdx + w c * 2) vB0 vB1 vB2 vB3 vA2,
           tile_row (pC + cIdx + w c * 3) vB0 vB1 vB2 vB3 vA3] s)"

text \<open>The body of the two outer loops of Optimize13 to Optimize16: four rows of A are
  loaded, then the \<^verbatim>\<open>j += 4\<close> loop runs.  Optimize13 and Optimize14 compute
  \<^verbatim>\<open>i * a.w\<close>, \<^verbatim>\<open>k * b.w\<close> and \<^verbatim>\<open>i * c.w\<close> in place, Optimize15 and
  Optimize16 hoist them as \<^verbatim>\<open>aIdxBase\<close>, \<^verbatim>\<open>bIdxBase\<close> and \<^verbatim>\<open>cIdxBase\<close>.\<close>

definition tile4x4 ::
  "addr \<Rightarrow> addr \<Rightarrow> addr \<Rightarrow> Matrix \<Rightarrow> Matrix \<Rightarrow> Matrix \<Rightarrow> int \<Rightarrow> int \<Rightarrow> int \<Rightarrow> int \<Rightarrow>
   mem \<Rightarrow> mem" where
  "tile4x4 pA pB pC a b c aIdx bIdxBase cIdxBase bWAlign s =
     (let vA0 = vld1q_f32 (pA + aIdx) s;
          vA1 = vld1q_f32 (pA + aIdx + w a) s;
          vA2 = vld1q_f32 (pA + aIdx + w a * 2) s;
          vA3 = vld1q_f32 (pA + aIdx + w a * 3) s
      in for_range4 bWAlign (tile_step pB pC b c vA0 vA1 vA2 vA3 bIdxBase cIdxBase) s)"

section \<open>The bodies of the \<^verbatim>\<open>i\<close>/\<^verbatim>\<open>k\<close> loop nests\<close>

text \<open>Optimize1, Optimize2: \<^verbatim>\<open>a0 = pA[i * a.w + k]\<close>, then the scalar loop from 0.\<close>

definition row_scalar ::
  "addr \<Rightarrow> addr \<Rightarrow> addr \<Rightarrow> Matrix \<Rightarrow> Matrix \<Rightarrow> Matrix \<Rightarrow> int \<Rightarrow> int \<Rightarrow> mem \<Rightarrow> mem" where
  "row_scalar pA pB pC a b c i k s =
     (let a0 = s (pA + (i * w a + k))
      in snd (loop_j_scalar pB pC b c i k a0 0 s))"

text \<open>Optimize3, Optimize4, and the remainder in \<^verbatim>\<open>k\<close> of Optimize7, Optimize8.\<close>

definition row_unroll4 ::
  "addr \<Rightarrow> addr \<Rightarrow> addr \<Rightarrow> Matrix \<Rightarrow> Matrix \<Rightarrow> Matrix \<Rightarrow> int \<Rightarrow> int \<Rightarrow> mem \<Rightarrow> mem" where
  "row_unroll4 pA pB pC a b c i k s =
     (let a0 = s (pA + (i * w a + k));
          (j, s) = loop_j_unroll4 pB pC b c i k a0 0 s
      in snd (loop_j_scalar pB pC b c i k a0 j s))"

text \<open>Optimize5, Optimize6, and the remainder in \<^verbatim>\<open>k\<close> of Optimize9, Optimize10.\<close>

definition row_simd4 ::
  "addr \<Rightarrow> addr \<Rightarrow> addr \<Rightarrow> Matrix \<Rightarrow> Matrix \<Rightarrow> Matrix \<Rightarrow> int \<Rightarrow> int \<Rightarrow> mem \<Rightarrow> mem" where
  "row_simd4 pA pB pC a b c i k s =
     (let a0 = s (pA + (i * w a + k));
          (j, s) = (if ARM_NEON then loop_j_simd4 pB pC b c i k (vdupq_n_f32 a0) 0 s
                    else (0, s))
      in snd (loop_j_scalar pB pC b c i k a0 j s))"

text \<open>Optimize7, Optimize8: the step of the \<^verbatim>\<open>k += 4\<close> loop.\<close>

definition row4_unroll ::
  "addr \<Rightarrow> addr \<Rightarrow> addr \<Rightarrow> Matrix \<Rightarrow> Matrix \<Rightarrow> Matrix \<Rightarrow> int \<Rightarrow> int \<Rightarrow> mem \<Rightarrow> mem" where
  "row4_unroll pA pB pC a b c i k s =
     (let a0 = s (pA + (i * w a + k));
          a1 = s (pA + (i * w a + k + 1));
          a2 = s (pA + (i * w a + k + 2));
          a3 = s (pA + (i * w a + k + 3));
          (j, s) = loop_j_unroll4x4 pB pC b c i k a0 a1 a2 a3 0 s
      in snd (loop_j_scalar4 pB pC b c i k a0 a1 a2 a3 j s))"

text \<open>Optimize9: the step of the \<^verbatim>\<open>k += 4\<close> loop.\<close>

definition row4_simd ::
  "addr \<Rightarrow> addr \<Rightarrow> addr \<Rightarrow> Matrix \<Rightarrow> Matrix \<Rightarrow> Matrix \<Rightarrow> int \<Rightarrow> int \<Rightarrow> mem \<Rightarrow> mem" where
  "row4_simd pA pB pC a b c i k s =
     (let a0 = s (pA + (i * w a + k));
          a1 = s (pA + (i * w a + k + 1));
          a2 = s (pA + (i * w a + k + 2));
          a3 = s (pA + (i * w a + k + 3));
          (j, s) = (if ARM_NEON then
                      loop_j_simd4x4 pB pC b c i k
                        (vdupq_n_f32 a0) (vdupq_n_f32 a1) (vdupq_n_f32 a2) (vdupq_n_f32 a3) 0 s
                    else (0, s))
      in snd (loop_j_scalar4 pB pC b c i k a0 a1 a2 a3 j s))"

text \<open>Optimize10: the step of the \<^verbatim>\<open>k += 4\<close> loop.\<close>

definition row4_simd_10 ::
  "addr \<Rightarrow> addr \<Rightarrow> addr \<Rightarrow> Matrix \<Rightarrow> Matrix \<Rightarrow> Matrix \<Rightarrow> int \<Rightarrow> int \<Rightarrow> mem \<Rightarrow> mem" where
  "row4_simd_10 pA pB pC a b c i k s =
     (let a0 = s (pA + (i * w a + k));
          a1 = s (pA + (i * w a + k + 1));
          a2 = s (pA + (i * w a + k + 2));
          a3 = s (pA + (i * w a + k + 3));
          (j, s) = (if ARM_NEON then
                      loop_j_simd4x4 pB pC b c i k
                        (vdupq_n_f32 a0) (vdupq_n_f32 a1) (vdupq_n_f32 a2) (vdupq_n_f32 a3) 0 s
                    else (0, s))
      in snd (loop_j_scalar4_10 pB pC b c i k a0 a1 a2 a3 j s))"

text \<open>Optimize11, Optimize12: the step of the \<^verbatim>\<open>k += 4\<close> loop; no remainder loop.\<close>

definition row4_aligned ::
  "addr \<Rightarrow> addr \<Rightarrow> addr \<Rightarrow> Matrix \<Rightarrow> Matrix \<Rightarrow> Matrix \<Rightarrow> int \<Rightarrow> int \<Rightarrow> mem \<Rightarrow> mem" where
  "row4_aligned pA pB pC a b c i k s =
     (let vA = vld1q_f32 (pA + (i * w a + k)) s;
          vA0 = vdupq_laneq_f32 vA 0;
          vA1 = vdupq_laneq_f32 vA 1;
          vA2 = vdupq_laneq_f32 vA 2;
          vA3 = vdupq_laneq_f32 vA 3
      in snd (loop_j_simd4x4 pB pC b c i k vA0 vA1 vA2 vA3 0 s))"

section \<open>The kernels\<close>

definition Origin :: "Matrix \<Rightarrow> Matrix \<Rightarrow> Matrix \<Rightarrow> mem \<Rightarrow> mem" where
  "Origin a b c s =
     (if \<not> CheckParam a b c then s
      else let pA = the (data a); pB = the (data b); pC = the (data c)
        in for_range (h a) (\<lambda>i.
             for_range (w b) (\<lambda>j.
               for_range (w a) (\<lambda>k s.
                 acc_mul pC (i * w c + j) (s (pA + (i * w a + k))) pB (k * w b + j) s))) s)"

definition Optimize1 :: "Matrix \<Rightarrow> Matrix \<Rightarrow> Matrix \<Rightarrow> mem \<Rightarrow> mem" where
  "Optimize1 a b c s =
     (if \<not> CheckParam a b c then s
      else let pA = the (data a); pB = the (data b); pC = the (data c)
        in for_range (h a) (\<lambda>i.
             for_range (w a) (\<lambda>k. row_scalar pA pB pC a b c i k)) s)"

definition Optimize2 :: "Matrix \<Rightarrow> Matrix \<Rightarrow> Matrix \<Rightarrow> mem \<Rightarrow> mem" where
  "Optimize2 a b c s =
     (if \<not> CheckParam a b c then s
      else let pA = the (data a); pB = the (data b); pC = the (data c)
        in for_range (w a) (\<lambda>k.
             for_range (h a) (\<lambda>i. row_scalar pA pB pC a b c i k)) s)"

definition Optimize3 :: "Matrix \<Rightarrow> Matrix \<Rightarrow> Matrix \<Rightarrow> mem \<Rightarrow> mem" where
  "Optimize3 a b c s =
     (if \<not> CheckParam a b c then s
      else let pA = the (data a); pB = the (data b); pC = the (data c)
        in for_range (h a) (\<lambda>i.
             for_range (w a) (\<lambda>k. row_unroll4 pA pB pC a b c i k)) s)"

definition Optimize4 :: "Matrix \<Rightarrow> Matrix \<Rightarrow> Matrix \<Rightarrow> mem \<Rightarrow> mem" where
  "Optimize4 a b c s =
     (if \<not> CheckParam a b c then s
      else let pA = the (data a); pB = the (data b); pC = the (data c)
        in for_range (w a) (\<lambda>k.
             for_range (h a) (\<lambda>i. row_unroll4 pA pB pC a b c i k)) s)"

definition Optimize5 :: "Matrix \<Rightarrow> Matrix \<Rightarrow> Matrix \<Rightarrow> mem \<Rightarrow> mem" where
  "Optimize5 a b c s =
     (if \<not> CheckParam a b c then s
      else let pA = the (data a); pB = the (data b); pC = the (data c)
        in for_range (h a) (\<lambda>i.
             for_range (w a) (\<lambda>k. row_simd4 pA pB pC a b c i k)) s)"

definition Optimize6 :: "Matrix \<Rightarrow> Matrix \<Rightarrow> Matrix \<Rightarrow> mem \<Rightarrow> mem" where
  "Optimize6 a b c s =
     (if \<not> CheckParam a b c then s
      else let pA = the (data a); pB = the (data b); pC = the (data c)
        in for_range (w a) (\<lambda>k.
             for_range (h a) (\<lambda>i. row_simd4 pA pB pC a b c i k)) s)"

definition Optimize7 :: "Matrix \<Rightarrow> Matrix \<Rightarrow> Matrix \<Rightarrow> mem \<Rightarrow> mem" where
  "Optimize7 a b c s =
     (if \<not> CheckParam a b c then s
      else let pA = the (data a); pB = the (data b); pC = the (data c)
        in for_range (h a) (\<lambda>i s.
             let (k, s) = for_add4 0 (w a AND NOT 3) (\<lambda>k. row4_unroll pA pB pC a b c i k) s
             in snd (for_inc k (w a) (\<lambda>k. row_unroll4 pA pB pC a b c i k) s)) s)"

definition Optimize8 :: "Matrix \<Rightarrow> Matrix \<Rightarrow> Matrix \<Rightarrow> mem \<Rightarrow> mem" where
  "Optimize8 a b c s =
     (if \<not> CheckParam a b c then s
      else let pA = the (data a); pB = the (data b); pC = the (data c);
               (k, s) = for_add4 0 (w a AND NOT 3) (\<lambda>k.
                          for_range (h a) (\<lambda>i. row4_unroll pA pB pC a b c i k)) s
        in snd (for_inc k (w a) (\<lambda>k.
                  for_range (h a) (\<lambda>i. row_unroll4 pA pB pC a b c i k)) s))"

definition Optimize9 :: "Matrix \<Rightarrow> Matrix \<Rightarrow> Matrix \<Rightarrow> mem \<Rightarrow> mem" where
  "Optimize9 a b c s =
     (if \<not> CheckParam a b c then s
      else let pA = the (data a); pB = the (data b); pC = the (data c)
        in for_range (h a) (\<lambda>i s.
             let (k, s) = for_add4 0 (w a AND NOT 3) (\<lambda>k. row4_simd pA pB pC a b c i k) s
             in snd (for_inc k (w a) (\<lambda>k. row_simd4 pA pB pC a b c i k) s)) s)"

definition Optimize10 :: "Matrix \<Rightarrow> Matrix \<Rightarrow> Matrix \<Rightarrow> mem \<Rightarrow> mem" where
  "Optimize10 a b c s =
     (if \<not> CheckParam a b c then s
      else let pA = the (data a); pB = the (data b); pC = the (data c);
               (k, s) = for_add4 0 (w a AND NOT 3) (\<lambda>k.
                          for_range (h a) (\<lambda>i. row4_simd_10 pA pB pC a b c i k)) s
        in snd (for_inc k (w a) (\<lambda>k.
                  for_range (h a) (\<lambda>i. row_simd4 pA pB pC a b c i k)) s))"

definition Optimize11 :: "Matrix \<Rightarrow> Matrix \<Rightarrow> Matrix \<Rightarrow> mem \<Rightarrow> mem" where
  "Optimize11 a b c s =
     (if \<not> CheckParam a b c then s
      else let pA = the (data a); pB = the (data b); pC = the (data c)
        in if ARM_NEON then
             for_range (h a) (\<lambda>i s.
               snd (for_add4 0 (w a AND NOT 3) (\<lambda>k. row4_aligned pA pB pC a b c i k) s)) s
           else s)"

definition Optimize12 :: "Matrix \<Rightarrow> Matrix \<Rightarrow> Matrix \<Rightarrow> mem \<Rightarrow> mem" where
  "Optimize12 a b c s =
     (if \<not> CheckParam a b c then s
      else let pA = the (data a); pB = the (data b); pC = the (data c)
        in if ARM_NEON then
             snd (for_add4 0 (w a AND NOT 3) (\<lambda>k.
                    for_range (h a) (\<lambda>i. row4_aligned pA pB pC a b c i k)) s)
           else s)"

definition Optimize13 :: "Matrix \<Rightarrow> Matrix \<Rightarrow> Matrix \<Rightarrow> mem \<Rightarrow> mem" where
  "Optimize13 a b c s =
     (if \<not> CheckParam a b c then s
      else let pA = the (data a); pB = the (data b); pC = the (data c)
        in if ARM_NEON then
             for_range4 (h a AND NOT 3) (\<lambda>i.
               for_range4 (w a AND NOT 3) (\<lambda>k.
                 tile4x4 pA pB pC a b c (i * w a + k) (k * w b) (i * w c) (w b AND NOT 3))) s
           else s)"

definition Optimize14 :: "Matrix \<Rightarrow> Matrix \<Rightarrow> Matrix \<Rightarrow> mem \<Rightarrow> mem" where
  "Optimize14 a b c s =
     (if \<not> CheckParam a b c then s
      else let pA = the (data a); pB = the (data b); pC = the (data c)
        in if ARM_NEON then
             for_range4 (w a AND NOT 3) (\<lambda>k.
               for_range4 (h a AND NOT 3) (\<lambda>i.
                 tile4x4 pA pB pC a b c (i * w a + k) (k * w b) (i * w c) (w b AND NOT 3))) s
           else s)"

definition Optimize15 :: "Matrix \<Rightarrow> Matrix \<Rightarrow> Matrix \<Rightarrow> mem \<Rightarrow> mem" where
  "Optimize15 a b c s =
     (if \<not> CheckParam a b c then s
      else let pA = the (data a); pB = the (data b); pC = the (data c)
        in if ARM_NEON then
             let aHAlign = h a AND NOT 3; aWAlign = w a AND NOT 3; bWAlign = w b AND NOT 3
             in for_range4 aHAlign (\<lambda>i.
                  let aIdxBase = i * w a; cIdxBase = i * w c
                  in for_range4 aWAlign (\<lambda>k.
                       let aIdx = aIdxBase + k; bIdxBase = k * w b
                       in tile4x4 pA pB pC a b c aIdx bIdxBase cIdxBase bWAlign)) s
           else s)"

definition Optimize16 :: "Matrix \<Rightarrow> Matrix \<Rightarrow> Matrix \<Rightarrow> mem \<Rightarrow> mem" where
  "Optimize16 a b c s =
     (if \<not> CheckParam a b c then s
      else let pA = the (data a); pB = the (data b); pC = the (data c)
        in if ARM_NEON then
             let aHAlign = h a AND NOT 3; aWAlign = w a AND NOT 3; bWAlign = w b AND NOT 3
             in for_range4 aWAlign (\<lambda>k.
                  let bIdxBase = k * w b
                  in for_range4 aHAlign (\<lambda>i.
                       let aIdxBase = i * w a; cIdxBase = i * w c; aIdx = aIdxBase + k
                       in tile4x4 pA pB pC a b c aIdx bIdxBase cIdxBase bWAlign)) s
           else s)"

section \<open>Reading a matrix from the store; concrete inputs\<close>

text \<open>The address of element \<open>(i, j)\<close> of a view, and its value in a store.\<close>

definition cellp :: "Matrix \<Rightarrow> int \<Rightarrow> int \<Rightarrow> addr" where
  "cellp m i j = the (data m) + (i * w m + j)"

definition elt :: "Matrix \<Rightarrow> mem \<Rightarrow> int \<Rightarrow> int \<Rightarrow> real" where
  "elt m s i j = s (cellp m i j)"

definition read_matrix :: "Matrix \<Rightarrow> mem \<Rightarrow> real list list" where
  "read_matrix m s = map (\<lambda>i. map (\<lambda>j. elt m s i j) [0..w m - 1]) [0..h m - 1]"

text \<open>A store that holds the given floats from address 0 on, and 0 elsewhere.\<close>

definition mem_of :: "real list \<Rightarrow> mem" where
  "mem_of xs = (\<lambda>p. if 0 \<le> p \<and> p < int (length xs) then xs ! nat p else 0)"

text \<open>The scenario of the spec (section 8): A is 2x3 at addresses 0 to 5, B is 3x2 at
  6 to 11, C is 2x2 and zero at 12 to 15.\<close>

definition scenario_A :: Matrix where
  "scenario_A = \<lparr>data = Some 0, h = 2, w = 3\<rparr>"

definition scenario_B :: Matrix where
  "scenario_B = \<lparr>data = Some 6, h = 3, w = 2\<rparr>"

definition scenario_C :: Matrix where
  "scenario_C = \<lparr>data = Some 12, h = 2, w = 2\<rparr>"

definition scenario_mem :: mem where
  "scenario_mem = mem_of [1, 2, 3, 4, 5, 6, 7, 8, 9, 10, 11, 12, 0, 0, 0, 0]"

text \<open>An input with four columns in A and one column in B: A is 1x4 at addresses 0 to
  3, B is 4x1 at 4 to 7, C is 1x1 at address 8, the first float of a zeroed buffer of
  four.\<close>

definition tail_A :: Matrix where
  "tail_A = \<lparr>data = Some 0, h = 1, w = 4\<rparr>"

definition tail_B :: Matrix where
  "tail_B = \<lparr>data = Some 4, h = 4, w = 1\<rparr>"

definition tail_C :: Matrix where
  "tail_C = \<lparr>data = Some 8, h = 1, w = 1\<rparr>"

definition tail_mem :: mem where
  "tail_mem = mem_of [1, 2, 3, 4, 1, 1, 1, 1, 0, 0, 0, 0]"

text \<open>A second 1x1 output for this input, at address 12, zero as well.\<close>

definition tail_C0 :: Matrix where
  "tail_C0 = \<lparr>data = Some 12, h = 1, w = 1\<rparr>"

text \<open>A view without a buffer.\<close>

definition null_view :: Matrix where
  "null_view = \<lparr>data = None, h = 0, w = 0\<rparr>"



section \<open>The check mode of the driver (src/main.cpp)\<close>

text \<open>One round of the check loop of \<^verbatim>\<open>main\<close>: \<^verbatim>\<open>Origin\<close> fills \<^verbatim>\<open>output1\<close>, the
  kernel under test fills \<^verbatim>\<open>output2\<close>, and \<^verbatim>\<open>CheckResult\<close> compares the two.\<close>

definition check_mode ::
  "(Matrix \<Rightarrow> Matrix \<Rightarrow> Matrix \<Rightarrow> mem \<Rightarrow> mem) \<Rightarrow> Matrix \<Rightarrow> Matrix \<Rightarrow> Matrix \<Rightarrow> Matrix \<Rightarrow> mem \<Rightarrow> bool" where
  "check_mode K input1 input2 output1 output2 s =
     (let s = Origin input1 input2 output1 s;
          s = K input1 input2 output2 s
      in CheckResult output1 output2 s)"

section \<open>Notions for the proofs\<close>

text \<open>The cells of a view: the \<open>h * w\<close> floats from its data pointer on.\<close>

definition cells :: "Matrix \<Rightarrow> addr set" where
  "cells m = (case data m of None \<Rightarrow> {}
     | Some p \<Rightarrow> if 0 < h m \<and> 0 < w m then {p ..< p + h m * w m} else {})"

text \<open>The cells of the first \<open>H\<close> rows and \<open>W\<close> columns of a view.\<close>

definition block_cells :: "Matrix \<Rightarrow> int \<Rightarrow> int \<Rightarrow> addr set" where
  "block_cells m H W = {cellp m i j | i j. 0 \<le> i \<and> i < H \<and> 0 \<le> j \<and> j < W}"

text \<open>A store transformer that changes no address outside a given set.\<close>

definition writes_within :: "addr set \<Rightarrow> (mem \<Rightarrow> mem) \<Rightarrow> bool" where
  "writes_within X f \<longleftrightarrow> (\<forall>s p. p \<notin> X \<longrightarrow> f s p = s p)"

text \<open>The output buffer shares no cell with an input buffer.\<close>

definition separate :: "Matrix \<Rightarrow> Matrix \<Rightarrow> Matrix \<Rightarrow> bool" where
  "separate a b c \<longleftrightarrow> cells c \<inter> (cells a \<union> cells b) = {}"

text \<open>The store \<open>s\<close> with \<open>D (i, j)\<close> added to element \<open>(i, j)\<close> of the view \<open>c\<close>.\<close>

definition acc :: "Matrix \<Rightarrow> mem \<Rightarrow> (int \<times> int \<Rightarrow> real) \<Rightarrow> mem" where
  "acc c s D = (\<lambda>p. if p \<in> cells c
       then s p + D ((p - the (data c)) div w c, (p - the (data c)) mod w c) else s p)"

text \<open>Contributions to the elements of C: one value at one position; the products of
  \<open>A[i,k]\<close> with row \<open>k\<close> of B in the columns below \<open>W\<close>; the four products that the
  unrolled kernels add to one element.\<close>

definition cadd :: "int \<Rightarrow> int \<Rightarrow> real \<Rightarrow> int \<times> int \<Rightarrow> real" where
  "cadd i j v x = (if x = (i, j) then v else 0)"

definition rowc :: "Matrix \<Rightarrow> Matrix \<Rightarrow> mem \<Rightarrow> int \<Rightarrow> int \<Rightarrow> int \<Rightarrow> int \<times> int \<Rightarrow> real" where
  "rowc a b s W i k x =
     (if fst x = i \<and> 0 \<le> snd x \<and> snd x < W then elt a s i k * elt b s k (snd x) else 0)"

definition quad :: "Matrix \<Rightarrow> mem \<Rightarrow> int \<Rightarrow> real \<Rightarrow> real \<Rightarrow> real \<Rightarrow> real \<Rightarrow> int \<Rightarrow> real" where
  "quad b s k a0 a1 a2 a3 j =
     a0 * elt b s k j + a1 * elt b s (k + 1) j + a2 * elt b s (k + 2) j + a3 * elt b s (k + 3) j"


text \<open>The specification of all kernels: \<open>C[i,j] += \<Sum>k. A[i,k] * B[k,j]\<close>, in exact
  arithmetic, everything outside C unchanged.\<close>

definition product_at :: "Matrix \<Rightarrow> Matrix \<Rightarrow> mem \<Rightarrow> int \<Rightarrow> int \<Rightarrow> real" where
  "product_at a b s i j = (\<Sum>k = 0..<w a. elt a s i k * elt b s k j)"

definition gemm_acc :: "Matrix \<Rightarrow> Matrix \<Rightarrow> Matrix \<Rightarrow> mem \<Rightarrow> mem" where
  "gemm_acc a b c s = acc c s (\<lambda>x. \<Sum>k = 0..<w a. elt a s (fst x) k * elt b s k (snd x))"


text \<open>A kernel and \<^verbatim>\<open>Origin\<close>, both run from the same store on the same C, agree on
  every element of C within \<open>EPSILON\<close>.\<close>

definition agrees_with_Origin ::
  "(Matrix \<Rightarrow> Matrix \<Rightarrow> Matrix \<Rightarrow> mem \<Rightarrow> mem) \<Rightarrow> Matrix \<Rightarrow> Matrix \<Rightarrow> Matrix \<Rightarrow> mem \<Rightarrow> bool" where
  "agrees_with_Origin K a b c s \<longleftrightarrow>
     (\<forall>i j. 0 \<le> i \<and> i < h c \<and> 0 \<le> j \<and> j < w c \<longrightarrow>
        \<bar>elt c (K a b c s) i j - elt c (Origin a b c s) i j\<bar> \<le> EPSILON)"

text \<open>The driver's check passes for the kernel's output \<open>c\<close>, whatever zeroed buffer
  \<open>c0\<close>, apart from \<open>c\<close> and from the inputs, receives the result of \<^verbatim>\<open>Origin\<close>.\<close>

definition passes_check ::
  "(Matrix \<Rightarrow> Matrix \<Rightarrow> Matrix \<Rightarrow> mem \<Rightarrow> mem) \<Rightarrow> Matrix \<Rightarrow> Matrix \<Rightarrow> Matrix \<Rightarrow> mem \<Rightarrow> bool" where
  "passes_check K a b c s \<longleftrightarrow>
     (\<forall>c0. CheckParam a b c0 \<and> separate a b c0 \<and> cells c0 \<inter> cells c = {} \<and>
           (\<forall>p\<in>cells c0 \<union> cells c. s p = 0) \<longrightarrow> check_mode K a b c0 c s)"

text \<open>Both inputs are as they were before the call.\<close>

definition inputs_unchanged ::
  "(Matrix \<Rightarrow> Matrix \<Rightarrow> Matrix \<Rightarrow> mem \<Rightarrow> mem) \<Rightarrow> Matrix \<Rightarrow> Matrix \<Rightarrow> Matrix \<Rightarrow> mem \<Rightarrow> bool" where
  "inputs_unchanged K a b c s \<longleftrightarrow>
     (\<forall>i k. 0 \<le> i \<and> i < h a \<and> 0 \<le> k \<and> k < w a \<longrightarrow>
        elt a (K a b c s) i k = elt a s i k) \<and>
     (\<forall>k j. 0 \<le> k \<and> k < h b \<and> 0 \<le> j \<and> j < w b \<longrightarrow>
        elt b (K a b c s) k j = elt b s k j)"

section \<open>More concrete inputs\<close>

text \<open>A second zero 2x2 output for the scenario, at addresses 16 to 19.\<close>

definition scenario_C2 :: Matrix where
  "scenario_C2 = \<lparr>data = Some 16, h = 2, w = 2\<rparr>"






text \<open>Dimensions with a remainder: A is 5x4 at addresses 0 to 19, B is 4x5 at 20 to 39,
  C is 5x5 at 40 to 64.\<close>

definition edge_A :: Matrix where
  "edge_A = \<lparr>data = Some 0, h = 5, w = 4\<rparr>"

definition edge_B :: Matrix where
  "edge_B = \<lparr>data = Some 20, h = 4, w = 5\<rparr>"

definition edge_C :: Matrix where
  "edge_C = \<lparr>data = Some 40, h = 5, w = 5\<rparr>"

definition edge_mem :: mem where
  "edge_mem = mem_of (replicate 40 1)"

text \<open>An output that is also the first input: one 1x1 view at address 0 used as A and
  as C, and a 1x1 view at address 1 as B.\<close>

definition alias_AC :: Matrix where
  "alias_AC = \<lparr>data = Some 0, h = 1, w = 1\<rparr>"

definition alias_B :: Matrix where
  "alias_B = \<lparr>data = Some 1, h = 1, w = 1\<rparr>"

definition alias_mem :: mem where
  "alias_mem = mem_of [2, 3]"

text \<open>Views that share storage.  One vector of three floats at addresses 6 to 8 serves
  as B (3x1) and as C (2x1); A is 2x3 at addresses 0 to 5.\<close>

definition overlap_A :: Matrix where
  "overlap_A = \<lparr>data = Some 0, h = 2, w = 3\<rparr>"

definition overlap_B :: Matrix where
  "overlap_B = \<lparr>data = Some 6, h = 3, w = 1\<rparr>"

definition overlap_C :: Matrix where
  "overlap_C = \<lparr>data = Some 6, h = 2, w = 1\<rparr>"

definition overlap_mem :: mem where
  "overlap_mem = mem_of [0, 0, 1, 1, 0, 0, 0, 0, 1]"





section \<open>Loops: unfolding and evaluation\<close>

lemma for_inc_step: "j < n \<Longrightarrow> for_inc j n body s = for_inc (j + 1) n body (body j s)"
  by (subst for_inc.simps) simp

lemma for_inc_stop: "\<not> j < n \<Longrightarrow> for_inc j n body s = (j, s)"
  by (subst for_inc.simps) simp

lemma for_add4_step: "j < n \<Longrightarrow> for_add4 j n body s = for_add4 (j + 4) n body (body j s)"
  by (subst for_add4.simps) simp

lemma for_add4_stop: "\<not> j < n \<Longrightarrow> for_add4 j n body s = (j, s)"
  by (subst for_add4.simps) simp

text \<open>Congruence rules that keep the simplifier out of loop bodies: on a concrete
  store a loop is then run step by step, from the outside in.\<close>

lemma for_inc_wcong:
  "j = j' \<Longrightarrow> n = n' \<Longrightarrow> s = s' \<Longrightarrow> for_inc j n body s = for_inc j' n' body s'"
  by simp

lemma for_add4_wcong:
  "j = j' \<Longrightarrow> n = n' \<Longrightarrow> s = s' \<Longrightarrow> for_add4 j n body s = for_add4 j' n' body s'"
  by simp

lemma for_range_wcong: "n = n' \<Longrightarrow> s = s' \<Longrightarrow> for_range n body s = for_range n' body s'"
  by simp

lemma for_range4_wcong: "n = n' \<Longrightarrow> s = s' \<Longrightarrow> for_range4 n body s = for_range4 n' body s'"
  by simp

lemmas run_simps = for_inc_step for_inc_stop for_add4_step for_add4_stop for_range_def
  for_range4_def acc_mul_def CheckParam_def

lemmas run_cong = for_inc_wcong for_add4_wcong for_range_wcong for_range4_wcong

lemmas blocks = row_scalar_def row_unroll4_def row_simd4_def row4_unroll_def row4_simd_def
  row4_simd_10_def row4_aligned_def tile4x4_def tile_step_def tile_row_def loop_j_scalar_def
  loop_j_unroll4_def loop_j_simd4_def loop_j_unroll4x4_def loop_j_scalar4_def
  loop_j_scalar4_10_def loop_j_simd4x4_def acc_mul4_def vld1q_f32_def vst1q_f32_def
  vdupq_n_f32_def vfmaq_f32_def vdupq_laneq_f32_def vfmaq_laneq_f32_def vgetq_lane_f32_def
  ARM_NEON_def

text \<open>\<^verbatim>\<open>x & ~3\<close> clears the low two bits.\<close>

lemma and_not_3: "(x::int) AND NOT 3 = 4 * (x div 4)"
proof -
  have "(3::int) = mask 2" by (simp add: mask_eq_exp_minus_1)
  moreover have "x AND NOT (mask 2) = push_bit 2 (drop_bit 2 x)"
  proof (rule bit_eqI)
    fix n
    show "bit (x AND NOT (mask 2)) n = bit (push_bit 2 (drop_bit 2 x)) n"
    proof (cases "n < 2")
      case True
      then show ?thesis by (simp add: bit_simps)
    next
      case False
      then have "Suc (Suc (n - 2)) = n" by simp
      with False show ?thesis by (simp add: bit_simps)
    qed
  qed
  ultimately show ?thesis by (simp add: push_bit_eq_mult drop_bit_eq_div)
qed

section \<open>CheckResult\<close>

lemma check_row_iff:
  "check_row s pa pb aw i j \<longleftrightarrow>
     (\<forall>t. j \<le> t \<and> t < aw \<longrightarrow> \<bar>s (pa + (i * aw + t)) - s (pb + (i * aw + t))\<bar> \<le> EPSILON)"
proof (induction s pa pb aw i j rule: check_row.induct)
  case (1 s pa pb aw i j)
  show ?case
  proof (cases "j < aw")
    case False
    then show ?thesis by (subst check_row.simps) auto
  next
    case True
    show ?thesis
    proof (cases "\<bar>s (pa + (i * aw + j)) - s (pb + (i * aw + j))\<bar> > EPSILON")
      case far: True
      have "check_row s pa pb aw i j = False"
        using True far by (subst check_row.simps) simp
      moreover have "\<not> (\<forall>t. j \<le> t \<and> t < aw \<longrightarrow>
          \<bar>s (pa + (i * aw + t)) - s (pb + (i * aw + t))\<bar> \<le> EPSILON)"
        using True far by (auto intro!: exI[of _ j])
      ultimately show ?thesis by simp
    next
      case near: False
      have "check_row s pa pb aw i j = check_row s pa pb aw i (j + 1)"
        using True near by (subst check_row.simps) simp
      also have "\<dots> \<longleftrightarrow> (\<forall>t. j + 1 \<le> t \<and> t < aw \<longrightarrow>
          \<bar>s (pa + (i * aw + t)) - s (pb + (i * aw + t))\<bar> \<le> EPSILON)"
        using "1.IH" True near by simp
      also have "\<dots> \<longleftrightarrow> (\<forall>t. j \<le> t \<and> t < aw \<longrightarrow>
          \<bar>s (pa + (i * aw + t)) - s (pb + (i * aw + t))\<bar> \<le> EPSILON)"
      proof -
        have "\<And>t. j \<le> t \<longleftrightarrow> t = j \<or> j + 1 \<le> t" by auto
        then show ?thesis using near by (metis not_less)
      qed
      finally show ?thesis .
    qed
  qed
qed

lemma check_rows_iff:
  "check_rows s pa pb ah aw i \<longleftrightarrow>
     (\<forall>r. i \<le> r \<and> r < ah \<longrightarrow> check_row s pa pb aw r 0)"
proof (induction s pa pb ah aw i rule: check_rows.induct)
  case (1 s pa pb ah aw i)
  show ?case
  proof (cases "i < ah")
    case False
    then show ?thesis by (subst check_rows.simps) auto
  next
    case True
    show ?thesis
    proof (cases "check_row s pa pb aw i 0")
      case bad: False
      have "check_rows s pa pb ah aw i = False"
        using True bad by (subst check_rows.simps) simp
      moreover have "\<not> (\<forall>r. i \<le> r \<and> r < ah \<longrightarrow> check_row s pa pb aw r 0)"
        using True bad by (auto intro!: exI[of _ i])
      ultimately show ?thesis by simp
    next
      case good: True
      have "check_rows s pa pb ah aw i = check_rows s pa pb ah aw (i + 1)"
        using True good by (subst check_rows.simps) simp
      also have "\<dots> \<longleftrightarrow> (\<forall>r. i + 1 \<le> r \<and> r < ah \<longrightarrow> check_row s pa pb aw r 0)"
        using "1.IH" True good by simp
      also have "\<dots> \<longleftrightarrow> (\<forall>r. i \<le> r \<and> r < ah \<longrightarrow> check_row s pa pb aw r 0)"
      proof -
        have "\<And>r. i \<le> r \<longleftrightarrow> r = i \<or> i + 1 \<le> r" by auto
        then show ?thesis using good by metis
      qed
      finally show ?thesis .
    qed
  qed
qed

lemma CheckResult_char:
  "CheckResult a b s \<longleftrightarrow>
     w a = w b \<and> h a = h b \<and> data a \<noteq> None \<and> data b \<noteq> None \<and>
     (\<forall>i j. 0 \<le> i \<and> i < h a \<and> 0 \<le> j \<and> j < w a \<longrightarrow>
        \<bar>elt a s i j - elt b s i j\<bar> \<le> EPSILON)"
  by (auto simp: CheckResult_def check_rows_iff check_row_iff elt_def cellp_def)




text \<open>
  Claim C8 (amended).  \<^verbatim>\<open>CheckResult(X, X)\<close> is true for every view \<open>X\<close> whose
  buffer is not null; the null check comes before the comparison, so a view without a
  buffer does not compare equal to itself.
\<close>

theorem CheckResult_refl:
  "data x \<noteq> None \<Longrightarrow> CheckResult x x s"
  by (simp add: CheckResult_char EPSILON_def)

theorem CheckResult_refl_witness:
  "data scenario_C \<noteq> None \<and> CheckResult scenario_C scenario_C scenario_mem"
  using CheckResult_refl [of scenario_C scenario_mem] by (simp add: scenario_C_def)

theorem CheckResult_refl_counterexample:
  "CheckResult null_view null_view scenario_mem = False"
  by (simp add: CheckResult_def null_view_def)

section \<open>The kernels on the concrete inputs\<close>

lemma scenario_vals:
  "scenario_mem 0 = 1" "scenario_mem 1 = 2" "scenario_mem 2 = 3" "scenario_mem 3 = 4"
  "scenario_mem 4 = 5" "scenario_mem 5 = 6" "scenario_mem 6 = 7" "scenario_mem 7 = 8"
  "scenario_mem 8 = 9" "scenario_mem 9 = 10" "scenario_mem 10 = 11" "scenario_mem 11 = 12"
  "scenario_mem 12 = 0" "scenario_mem 13 = 0" "scenario_mem 14 = 0" "scenario_mem 15 = 0"
  by (simp_all add: scenario_mem_def mem_of_def)

lemma tail_vals:
  "tail_mem 0 = 1" "tail_mem 1 = 2" "tail_mem 2 = 3" "tail_mem 3 = 4"
  "tail_mem 4 = 1" "tail_mem 5 = 1" "tail_mem 6 = 1" "tail_mem 7 = 1"
  "tail_mem 8 = 0" "tail_mem 9 = 0" "tail_mem 10 = 0" "tail_mem 11 = 0" "tail_mem 12 = 0"
  by (simp_all add: tail_mem_def mem_of_def)

lemmas scenario_simps = scenario_A_def scenario_B_def scenario_C_def scenario_vals
  tail_A_def tail_B_def tail_C_def tail_C0_def tail_vals read_matrix_def elt_def cellp_def
  upto.simps

lemma scenario_Origin:
  "read_matrix scenario_C (Origin scenario_A scenario_B scenario_C scenario_mem) = [[58, 64], [139, 154]]"
  unfolding Origin_def blocks Let_def
  by (simp add: run_simps scenario_simps cong: run_cong)

lemma scenario_Optimize1:
  "read_matrix scenario_C (Optimize1 scenario_A scenario_B scenario_C scenario_mem) = [[58, 64], [139, 154]]"
  unfolding Optimize1_def blocks Let_def
  by (simp add: run_simps scenario_simps cong: run_cong)

lemma scenario_Optimize2:
  "read_matrix scenario_C (Optimize2 scenario_A scenario_B scenario_C scenario_mem) = [[58, 64], [139, 154]]"
  unfolding Optimize2_def blocks Let_def
  by (simp add: run_simps scenario_simps cong: run_cong)

lemma scenario_Optimize3:
  "read_matrix scenario_C (Optimize3 scenario_A scenario_B scenario_C scenario_mem) = [[58, 64], [139, 154]]"
  unfolding Optimize3_def blocks Let_def
  by (simp add: run_simps scenario_simps cong: run_cong)

lemma scenario_Optimize4:
  "read_matrix scenario_C (Optimize4 scenario_A scenario_B scenario_C scenario_mem) = [[58, 64], [139, 154]]"
  unfolding Optimize4_def blocks Let_def
  by (simp add: run_simps scenario_simps cong: run_cong)

lemma scenario_Optimize5:
  "read_matrix scenario_C (Optimize5 scenario_A scenario_B scenario_C scenario_mem) = [[58, 64], [139, 154]]"
  unfolding Optimize5_def blocks Let_def
  by (simp add: run_simps scenario_simps cong: run_cong)

lemma scenario_Optimize6:
  "read_matrix scenario_C (Optimize6 scenario_A scenario_B scenario_C scenario_mem) = [[58, 64], [139, 154]]"
  unfolding Optimize6_def blocks Let_def
  by (simp add: run_simps scenario_simps cong: run_cong)

lemma scenario_Optimize7:
  "read_matrix scenario_C (Optimize7 scenario_A scenario_B scenario_C scenario_mem) = [[58, 64], [139, 154]]"
  unfolding Optimize7_def blocks Let_def
  by (simp add: run_simps scenario_simps cong: run_cong)

lemma scenario_Optimize8:
  "read_matrix scenario_C (Optimize8 scenario_A scenario_B scenario_C scenario_mem) = [[58, 64], [139, 154]]"
  unfolding Optimize8_def blocks Let_def
  by (simp add: run_simps scenario_simps cong: run_cong)

lemma scenario_Optimize9:
  "read_matrix scenario_C (Optimize9 scenario_A scenario_B scenario_C scenario_mem) = [[58, 64], [139, 154]]"
  unfolding Optimize9_def blocks Let_def
  by (simp add: run_simps scenario_simps cong: run_cong)

lemma scenario_Optimize10:
  "read_matrix scenario_C (Optimize10 scenario_A scenario_B scenario_C scenario_mem) = [[58, 64], [139, 154]]"
  unfolding Optimize10_def blocks Let_def
  by (simp add: run_simps scenario_simps cong: run_cong)

lemma scenario_Optimize11:
  "read_matrix scenario_C (Optimize11 scenario_A scenario_B scenario_C scenario_mem) = [[0, 0], [0, 0]]"
  unfolding Optimize11_def blocks Let_def
  by (simp add: run_simps scenario_simps cong: run_cong)

lemma scenario_Optimize12:
  "read_matrix scenario_C (Optimize12 scenario_A scenario_B scenario_C scenario_mem) = [[0, 0], [0, 0]]"
  unfolding Optimize12_def blocks Let_def
  by (simp add: run_simps scenario_simps cong: run_cong)

lemma scenario_Optimize13:
  "read_matrix scenario_C (Optimize13 scenario_A scenario_B scenario_C scenario_mem) = [[0, 0], [0, 0]]"
  unfolding Optimize13_def blocks Let_def
  by (simp add: run_simps scenario_simps cong: run_cong)

lemma scenario_Optimize14:
  "read_matrix scenario_C (Optimize14 scenario_A scenario_B scenario_C scenario_mem) = [[0, 0], [0, 0]]"
  unfolding Optimize14_def blocks Let_def
  by (simp add: run_simps scenario_simps cong: run_cong)

lemma scenario_Optimize15:
  "read_matrix scenario_C (Optimize15 scenario_A scenario_B scenario_C scenario_mem) = [[0, 0], [0, 0]]"
  unfolding Optimize15_def blocks Let_def
  by (simp add: run_simps scenario_simps cong: run_cong)

lemma scenario_Optimize16:
  "read_matrix scenario_C (Optimize16 scenario_A scenario_B scenario_C scenario_mem) = [[0, 0], [0, 0]]"
  unfolding Optimize16_def blocks Let_def
  by (simp add: run_simps scenario_simps cong: run_cong)

lemma tail_Origin:
  "read_matrix tail_C (Origin tail_A tail_B tail_C tail_mem) = [[10]]"
  unfolding Origin_def blocks Let_def
  by (simp add: run_simps scenario_simps cong: run_cong)

lemma tail_Optimize9:
  "read_matrix tail_C (Optimize9 tail_A tail_B tail_C tail_mem) = [[10]]"
  unfolding Optimize9_def blocks Let_def
  by (simp add: run_simps scenario_simps cong: run_cong)

lemma tail_Optimize10:
  "map (Optimize10 tail_A tail_B tail_C tail_mem) [8, 9, 10, 11] = [1, 2, 3, 4]"
  unfolding Optimize10_def blocks Let_def
  by (simp add: run_simps scenario_simps cong: run_cong)

lemma overlap_vals:
  "overlap_mem 0 = 0" "overlap_mem 1 = 0" "overlap_mem 2 = 1" "overlap_mem 3 = 1"
  "overlap_mem 4 = 0" "overlap_mem 5 = 0" "overlap_mem 6 = 0" "overlap_mem 7 = 0"
  "overlap_mem 8 = 1"
  by (simp_all add: overlap_mem_def mem_of_def)

lemmas overlap_simps = overlap_A_def overlap_B_def overlap_C_def overlap_vals
  read_matrix_def elt_def cellp_def upto.simps

lemma overlap_Origin:
  "read_matrix overlap_C (Origin overlap_A overlap_B overlap_C overlap_mem) = [[1], [1]]"
  unfolding Origin_def blocks Let_def
  by (simp add: run_simps overlap_simps cong: run_cong)

lemma overlap_Optimize2:
  "read_matrix overlap_C (Optimize2 overlap_A overlap_B overlap_C overlap_mem) = [[1], [0]]"
  unfolding Optimize2_def blocks Let_def
  by (simp add: run_simps overlap_simps cong: run_cong)





text \<open>
  Claim C4 (amended).  On the scenario of the spec, A = [[1,2,3],[4,5,6]],
  B = [[7,8],[9,10],[11,12]] and C zero, \<^verbatim>\<open>Origin\<close> and \<^verbatim>\<open>Optimize1\<close> to
  \<^verbatim>\<open>Optimize10\<close> leave [[58,64],[139,154]] in C.  \<^verbatim>\<open>Optimize11\<close> to
  \<^verbatim>\<open>Optimize16\<close> leave C zero: they only work on whole blocks of four, and none of
  the dimensions 2, 3, 2 holds one.
\<close>

theorem scenario_results:
  "read_matrix scenario_C (Origin scenario_A scenario_B scenario_C scenario_mem)
     = [[58, 64], [139, 154]] \<and>
   list_all (\<lambda>K. read_matrix scenario_C (K scenario_A scenario_B scenario_C scenario_mem)
                  = [[58, 64], [139, 154]])
     [Optimize1, Optimize2, Optimize3, Optimize4, Optimize5, Optimize6, Optimize7,
      Optimize8, Optimize9, Optimize10] \<and>
   list_all (\<lambda>K. read_matrix scenario_C (K scenario_A scenario_B scenario_C scenario_mem)
                  = [[0, 0], [0, 0]])
     [Optimize11, Optimize12, Optimize13, Optimize14, Optimize15, Optimize16]"
  by (simp add: scenario_Origin scenario_Optimize1 scenario_Optimize2 scenario_Optimize3
      scenario_Optimize4 scenario_Optimize5 scenario_Optimize6 scenario_Optimize7
      scenario_Optimize8 scenario_Optimize9 scenario_Optimize10 scenario_Optimize11
      scenario_Optimize12 scenario_Optimize13 scenario_Optimize14 scenario_Optimize15
      scenario_Optimize16)

theorem scenario_Optimize11_counterexample:
  "\<not> \<bar>elt scenario_C (Optimize11 scenario_A scenario_B scenario_C scenario_mem) 0 0 - 58\<bar>
       \<le> EPSILON"
proof -
  have "elt scenario_C (Optimize11 scenario_A scenario_B scenario_C scenario_mem) 0 0 = 0"
    using scenario_Optimize11 by (simp add: read_matrix_def scenario_C_def upto.simps)
  then show ?thesis by (simp add: EPSILON_def)
qed

lemma tail_check:
  "map (Optimize10 tail_A tail_B tail_C (Origin tail_A tail_B tail_C0 tail_mem)) [12, 8]
     = [10, 1]"
  unfolding Optimize10_def Origin_def blocks Let_def
  by (simp add: run_simps scenario_simps cong: run_cong)

text \<open>
  Claim C2 (the defect).  With A = [[1,2,3,4]], B = [[1],[1],[1],[1]] and C = [[0]],
  \<^verbatim>\<open>Origin\<close> leaves 10 in C[0,0].  \<^verbatim>\<open>Optimize10\<close> adds only the first product to
  C[0,0] and adds the other three to the three floats behind it, so C[0,0] is 1 and the
  driver's check against the result of \<^verbatim>\<open>Origin\<close> fails; \<^verbatim>\<open>Optimize9\<close>, the same
  kernel in \<^verbatim>\<open>ikj\<close> order, leaves 10.
\<close>

theorem Optimize10_tail_diverges:
  "read_matrix tail_C (Origin tail_A tail_B tail_C tail_mem) = [[10]] \<and>
   read_matrix tail_C (Optimize9 tail_A tail_B tail_C tail_mem) = [[10]] \<and>
   map (Optimize10 tail_A tail_B tail_C tail_mem) [8, 9, 10, 11] = [1, 2, 3, 4] \<and>
   \<bar>elt tail_C (Optimize10 tail_A tail_B tail_C tail_mem) 0 0
      - elt tail_C (Origin tail_A tail_B tail_C tail_mem) 0 0\<bar> > EPSILON \<and>
   check_mode Optimize10 tail_A tail_B tail_C0 tail_C tail_mem = False"
proof -
  have o: "elt tail_C (Origin tail_A tail_B tail_C tail_mem) 0 0 = 10"
    using tail_Origin by (simp add: read_matrix_def tail_C_def upto.simps)
  have t: "elt tail_C (Optimize10 tail_A tail_B tail_C tail_mem) 0 0 = 1"
    using tail_Optimize10 by (simp add: elt_def cellp_def tail_C_def)
  have "\<not> check_mode Optimize10 tail_A tail_B tail_C0 tail_C tail_mem"
  proof
    assume "check_mode Optimize10 tail_A tail_B tail_C0 tail_C tail_mem"
    then have "\<bar>elt tail_C0 (Optimize10 tail_A tail_B tail_C
                  (Origin tail_A tail_B tail_C0 tail_mem)) 0 0
             - elt tail_C (Optimize10 tail_A tail_B tail_C
                  (Origin tail_A tail_B tail_C0 tail_mem)) 0 0\<bar> \<le> EPSILON"
      unfolding check_mode_def Let_def CheckResult_char by (simp add: tail_C0_def)
    then show False
      using tail_check by (simp add: elt_def cellp_def tail_C_def tail_C0_def EPSILON_def)
  qed
  then show ?thesis
    using tail_Origin tail_Optimize9 tail_Optimize10 by (simp add: o t EPSILON_def)
qed

section \<open>Parameter validation\<close>



section \<open>Footprints: what a kernel can write\<close>

lemma cellp_fold:
  "the (data m) + (i * w m + j) = cellp m i j"
  "the (data m) + (i * w m + j + 1) = cellp m i (j + 1)"
  "the (data m) + (i * w m + j + 2) = cellp m i (j + 2)"
  "the (data m) + (i * w m + j + 3) = cellp m i (j + 3)"
  by (simp_all add: cellp_def)

lemma cellp_step:
  "cellp m i j + 1 = cellp m i (j + 1)"
  "cellp m i j + 2 = cellp m i (j + 2)"
  "cellp m i j + 3 = cellp m i (j + 3)"
  by (simp_all add: cellp_def)

lemma cellp_row:
  "cellp m i j + w m = cellp m (i + 1) j"
  "cellp m i j + w m * 2 = cellp m (i + 2) j"
  "cellp m i j + w m * 3 = cellp m (i + 3) j"
  by (simp_all add: cellp_def algebra_simps)

lemmas to_cellp = cellp_fold cellp_step cellp_row

lemma cellp_in_block:
  "0 \<le> i \<Longrightarrow> i < H \<Longrightarrow> 0 \<le> j \<Longrightarrow> j < W \<Longrightarrow> cellp m i j \<in> block_cells m H W"
  by (auto simp: block_cells_def)

lemma block_cells_mono:
  "H \<le> H' \<Longrightarrow> W \<le> W' \<Longrightarrow> block_cells m H W \<subseteq> block_cells m H' W'"
  by (fastforce simp: block_cells_def)

lemma cell_bound:
  fixes i j H W :: int
  assumes "0 \<le> i" "i < H" "0 \<le> j" "j < W"
  shows "0 \<le> i * W + j" "i * W + j < H * W"
proof -
  have W: "0 \<le> W" using assms by simp
  show "0 \<le> i * W + j" using assms W by simp
  have "i * W + j < i * W + W" using assms by simp
  also have "\<dots> = (i + 1) * W" by (simp add: algebra_simps)
  also have "\<dots> \<le> H * W" using assms W by (intro mult_right_mono) auto
  finally show "i * W + j < H * W" .
qed

lemma int_div_less:
  fixes q H W :: int
  assumes "q < H * W" "0 < W"
  shows "q div W < H"
proof (rule ccontr)
  assume "\<not> q div W < H"
  then have "H * W \<le> (q div W) * W" using assms by (intro mult_right_mono) auto
  moreover have "(q div W) * W + q mod W = q" by simp
  moreover have "0 \<le> q mod W" using assms by simp
  ultimately show False using assms by linarith
qed

lemma block_cells_full:
  assumes "data m \<noteq> None"
  shows "block_cells m (h m) (w m) = cells m"
proof -
  obtain p where p: "data m = Some p" using assms by auto
  show ?thesis
  proof (cases "0 < h m \<and> 0 < w m")
    case False
    then have "block_cells m (h m) (w m) = {}" by (auto simp: block_cells_def)
    with False p show ?thesis by (simp add: cells_def)
  next
    case True
    have "block_cells m (h m) (w m) = {p ..< p + h m * w m}"
    proof (intro equalityI subsetI)
      fix x assume "x \<in> block_cells m (h m) (w m)"
      then obtain i j where ij: "x = cellp m i j" "0 \<le> i" "i < h m" "0 \<le> j" "j < w m"
        by (auto simp: block_cells_def)
      from cell_bound[OF ij(2-5)] ij(1) p show "x \<in> {p ..< p + h m * w m}"
        by (simp add: cellp_def)
    next
      fix x assume x: "x \<in> {p ..< p + h m * w m}"
      let ?q = "x - p"
      have q: "0 \<le> ?q" "?q < h m * w m" using x by auto
      have "?q div w m < h m"
        using q True by (intro int_div_less) auto
      moreover have "0 \<le> ?q div w m" using q True by (simp add: pos_imp_zdiv_nonneg_iff)
      moreover have "0 \<le> ?q mod w m" "?q mod w m < w m" using True by auto
      moreover have "x = cellp m (?q div w m) (?q mod w m)"
        using p by (simp add: cellp_def)
      ultimately show "x \<in> block_cells m (h m) (w m)"
        by (auto simp: block_cells_def)
    qed
    with True p show ?thesis by (simp add: cells_def)
  qed
qed

lemma cellp_inj:
  assumes "cellp m i j = cellp m i' j'" "0 \<le> j" "j < w m" "0 \<le> j'" "j' < w m"
  shows "i = i' \<and> j = j'"
proof -
  have e: "i * w m + j = i' * w m + j'" using assms(1) by (simp add: cellp_def)
  have "(i * w m + j) div w m = i" "(i' * w m + j') div w m = i'"
    using assms by simp_all
  with e have "i = i'" by simp
  with e show ?thesis by simp
qed

subsection \<open>Footprints\<close>

lemma ww_I: "(\<And>s p. p \<notin> X \<Longrightarrow> f s p = s p) \<Longrightarrow> writes_within X f"
  by (simp add: writes_within_def)

lemma ww_D: "writes_within X f \<Longrightarrow> p \<notin> X \<Longrightarrow> f s p = s p"
  by (simp add: writes_within_def)

lemma ww_mono: "writes_within X f \<Longrightarrow> X \<subseteq> Y \<Longrightarrow> writes_within Y f"
  by (auto simp: writes_within_def)

lemma ww_id: "writes_within X (\<lambda>s. s)"
  by (simp add: writes_within_def)

lemma ww_comp:
  "writes_within X f \<Longrightarrow> writes_within X g \<Longrightarrow> writes_within X (\<lambda>s. g (f s))"
  by (simp add: writes_within_def)

lemma ww_dep: "(\<And>v. writes_within X (f v)) \<Longrightarrow> writes_within X (\<lambda>s. f (g s) s)"
  by (simp add: writes_within_def)

lemma ww_seq: "list_all (writes_within X) fs \<Longrightarrow> writes_within X (seq fs)"
proof (induction fs)
  case Nil
  show ?case by (simp add: writes_within_def)
next
  case (Cons f fs)
  then have "writes_within X f" "writes_within X (seq fs)" by simp_all
  then show ?case by (simp add: writes_within_def)
qed

lemma ww_acc_mul: "pC + x \<in> X \<Longrightarrow> writes_within X (acc_mul pC x a0 pB y)"
  by (auto simp: writes_within_def acc_mul_def)

lemma ww_vst:
  "p \<in> X \<Longrightarrow> p + 1 \<in> X \<Longrightarrow> p + 2 \<in> X \<Longrightarrow> p + 3 \<in> X \<Longrightarrow>
   writes_within X (vst1q_f32 p v)"
  by (auto simp: writes_within_def vst1q_f32_def split: prod.splits)

lemma for_inc_fst: "fst (for_inc j n body s) = max j n"
proof (induction j n body s rule: for_inc.induct)
  case (1 j n body s)
  show ?case
  proof (cases "j < n")
    case True
    with 1 show ?thesis by (simp add: for_inc_step)
  next
    case False
    then show ?thesis by (simp add: for_inc_stop)
  qed
qed

lemma for_add4_fst:
  "4 dvd j \<Longrightarrow> fst (for_add4 j (4 * m) body s) = max j (4 * m)"
proof (induction j "4 * m" body s rule: for_add4.induct)
  case (1 j body s)
  show ?case
  proof (cases "j < 4 * m")
    case True
    moreover have "4 dvd (j + 4)" using 1(2) by simp
    moreover have "j + 4 \<le> 4 * m" using True 1(2) by (auto elim!: dvdE)
    ultimately show ?thesis using 1 by (simp add: for_add4_step)
  next
    case False
    then show ?thesis by (simp add: for_add4_stop)
  qed
qed

lemma ww_for_inc:
  assumes "\<And>t. j \<le> t \<Longrightarrow> t < n \<Longrightarrow> writes_within X (body t)"
  shows "writes_within X (\<lambda>s. snd (for_inc j n body s))"
proof (rule ww_I)
  fix s p assume p: "p \<notin> X"
  from assms show "snd (for_inc j n body s) p = s p"
  proof (induction j n body s rule: for_inc.induct)
    case (1 j n body s)
    show ?case
    proof (cases "j < n")
      case True
      have "snd (for_inc (j + 1) n body (body j s)) p = body j s p"
        using True 1 by simp
      also have "\<dots> = s p" using 1(2)[of j] True p by (simp add: ww_D)
      finally show ?thesis using True by (simp add: for_inc_step)
    next
      case False
      then show ?thesis by (simp add: for_inc_stop)
    qed
  qed
qed

lemma ww_for_add4:
  assumes "\<And>t. j \<le> t \<Longrightarrow> t + 4 \<le> 4 * m \<Longrightarrow> writes_within X (body t)" and "4 dvd j"
  shows "writes_within X (\<lambda>s. snd (for_add4 j (4 * m) body s))"
proof (rule ww_I)
  fix s p assume p: "p \<notin> X"
  from assms show "snd (for_add4 j (4 * m) body s) p = s p"
  proof (induction j "4 * m" body s rule: for_add4.induct)
    case (1 j body s)
    show ?case
    proof (cases "j < 4 * m")
      case True
      have le: "j + 4 \<le> 4 * m" using True 1(3) by (auto elim!: dvdE)
      have "snd (for_add4 (j + 4) (4 * m) body (body j s)) p = body j s p"
        using True 1 by simp
      also have "\<dots> = s p" using 1(2)[of j] le p by (simp add: ww_D)
      finally show ?thesis using True by (simp add: for_add4_step)
    next
      case False
      then show ?thesis by (simp add: for_add4_stop)
    qed
  qed
qed

lemma ww_for_range:
  "(\<And>t. 0 \<le> t \<Longrightarrow> t < n \<Longrightarrow> writes_within X (body t)) \<Longrightarrow>
   writes_within X (for_range n body)"
  using ww_for_inc [of 0 n X body] by (simp add: for_range_def [abs_def])

lemma ww_for_range4:
  "(\<And>t. 0 \<le> t \<Longrightarrow> t + 4 \<le> 4 * m \<Longrightarrow> writes_within X (body t)) \<Longrightarrow>
   writes_within X (for_range4 (4 * m) body)"
  using ww_for_add4 [of 0 m X body] by (simp add: for_range4_def [abs_def])

subsection \<open>Footprints of the blocks\<close>

lemma ww_acc_mul_dep: "pC + x \<in> X \<Longrightarrow> writes_within X (\<lambda>s. acc_mul pC x (g s) pB y s)"
  by (auto simp: writes_within_def acc_mul_def)

lemma ww_vst_dep:
  "p \<in> X \<Longrightarrow> p + 1 \<in> X \<Longrightarrow> p + 2 \<in> X \<Longrightarrow> p + 3 \<in> X \<Longrightarrow>
   writes_within X (\<lambda>s. vst1q_f32 p (g s) s)"
  by (auto simp: writes_within_def vst1q_f32_def split: prod.splits)

lemma ww_acc_mul4:
  "pC + x \<in> X \<Longrightarrow> writes_within X (acc_mul4 pB pC b k a0 a1 a2 a3 x y)"
  unfolding acc_mul4_def by (intro ww_seq) (simp add: ww_acc_mul)

lemma ww_loop_j_scalar:
  assumes "0 \<le> i" "i < H" "0 \<le> j0" "w b \<le> W"
  shows "writes_within (block_cells c H W)
           (\<lambda>s. snd (loop_j_scalar pB (the (data c)) b c i k a0 j0 s))"
  unfolding loop_j_scalar_def
  by (intro ww_for_inc ww_acc_mul) (use assms in \<open>simp add: to_cellp cellp_in_block\<close>)

lemma ww_loop_j_scalar4:
  assumes "0 \<le> i" "i < H" "0 \<le> j0" "w b \<le> W"
  shows "writes_within (block_cells c H W)
           (\<lambda>s. snd (loop_j_scalar4 pB (the (data c)) b c i k a0 a1 a2 a3 j0 s))"
  unfolding loop_j_scalar4_def
  by (intro ww_for_inc ww_acc_mul4) (use assms in \<open>simp add: to_cellp cellp_in_block\<close>)

lemma ww_loop_j_unroll4:
  assumes "0 \<le> i" "i < H" "4 * (w b div 4) \<le> W"
  shows "writes_within (block_cells c H W)
           (\<lambda>s. snd (loop_j_unroll4 pB (the (data c)) b c i k a0 0 s))"
  unfolding loop_j_unroll4_def and_not_3
  by (intro ww_for_add4 ww_seq) (use assms in \<open>simp_all add: ww_acc_mul to_cellp cellp_in_block\<close>)

lemma ww_loop_j_unroll4x4:
  assumes "0 \<le> i" "i < H" "4 * (w b div 4) \<le> W"
  shows "writes_within (block_cells c H W)
           (\<lambda>s. snd (loop_j_unroll4x4 pB (the (data c)) b c i k a0 a1 a2 a3 0 s))"
  unfolding loop_j_unroll4x4_def and_not_3
  by (intro ww_for_add4 ww_seq) (use assms in \<open>simp_all add: ww_acc_mul4 to_cellp cellp_in_block\<close>)

lemma ww_loop_j_simd4:
  assumes "0 \<le> i" "i < H" "4 * (w b div 4) \<le> W"
  shows "writes_within (block_cells c H W)
           (\<lambda>s. snd (loop_j_simd4 pB (the (data c)) b c i k vA0 0 s))"
  unfolding loop_j_simd4_def and_not_3 Let_def
  by (intro ww_for_add4 ww_vst_dep) (use assms in \<open>simp_all add: to_cellp cellp_in_block\<close>)

lemma ww_loop_j_simd4x4:
  assumes "0 \<le> i" "i < H" "4 * (w b div 4) \<le> W"
  shows "writes_within (block_cells c H W)
           (\<lambda>s. snd (loop_j_simd4x4 pB (the (data c)) b c i k vA0 vA1 vA2 vA3 0 s))"
  unfolding loop_j_simd4x4_def and_not_3 Let_def
  by (intro ww_for_add4 ww_vst_dep) (use assms in \<open>simp_all add: to_cellp cellp_in_block\<close>)

lemma fst_loop_j4:
  "fst (loop_j_unroll4 pB pC b c i k a0 0 s) = max 0 (4 * (w b div 4))"
  "fst (loop_j_simd4 pB pC b c i k vA0 0 s) = max 0 (4 * (w b div 4))"
  "fst (loop_j_unroll4x4 pB pC b c i k a0 a1 a2 a3 0 s) = max 0 (4 * (w b div 4))"
  "fst (loop_j_simd4x4 pB pC b c i k vA0 vA1 vA2 vA3 0 s) = max 0 (4 * (w b div 4))"
  unfolding loop_j_unroll4_def loop_j_simd4_def loop_j_unroll4x4_def loop_j_simd4x4_def
    and_not_3
  by (simp_all add: for_add4_fst)

lemma ww_row_scalar:
  assumes "0 \<le> i" "i < H" "w b \<le> W"
  shows "writes_within (block_cells c H W) (row_scalar pA pB (the (data c)) a b c i k)"
proof (rule ww_I)
  fix s p assume p: "p \<notin> block_cells c H W"
  show "row_scalar pA pB (the (data c)) a b c i k s p = s p"
    using ww_D [OF ww_loop_j_scalar [OF assms(1,2) _ assms(3)] p, of 0]
    by (simp add: row_scalar_def Let_def)
qed

lemma ww_row_unroll4:
  assumes "0 \<le> i" "i < H" "w b \<le> W"
  shows "writes_within (block_cells c H W) (row_unroll4 pA pB (the (data c)) a b c i k)"
proof (rule ww_I)
  fix s p assume p: "p \<notin> block_cells c H W"
  have le: "4 * (w b div 4) \<le> W" using assms(3) by linarith
  show "row_unroll4 pA pB (the (data c)) a b c i k s p = s p"
    using ww_D [OF ww_loop_j_scalar [OF assms(1,2) _ assms(3)] p, of "max 0 (4 * (w b div 4))"]
      ww_D [OF ww_loop_j_unroll4 [OF assms(1,2) le] p]
    by (simp add: row_unroll4_def Let_def split_def fst_loop_j4)
qed

lemma ww_row_simd4:
  assumes "0 \<le> i" "i < H" "w b \<le> W"
  shows "writes_within (block_cells c H W) (row_simd4 pA pB (the (data c)) a b c i k)"
proof (rule ww_I)
  fix s p assume p: "p \<notin> block_cells c H W"
  have le: "4 * (w b div 4) \<le> W" using assms(3) by linarith
  show "row_simd4 pA pB (the (data c)) a b c i k s p = s p"
    using ww_D [OF ww_loop_j_scalar [OF assms(1,2) _ assms(3)] p, of "max 0 (4 * (w b div 4))"]
      ww_D [OF ww_loop_j_simd4 [OF assms(1,2) le] p]
    by (simp add: row_simd4_def Let_def split_def fst_loop_j4 ARM_NEON_def)
qed

lemma ww_row4_unroll:
  assumes "0 \<le> i" "i < H" "w b \<le> W"
  shows "writes_within (block_cells c H W) (row4_unroll pA pB (the (data c)) a b c i k)"
proof (rule ww_I)
  fix s p assume p: "p \<notin> block_cells c H W"
  have le: "4 * (w b div 4) \<le> W" using assms(3) by linarith
  show "row4_unroll pA pB (the (data c)) a b c i k s p = s p"
    using ww_D [OF ww_loop_j_scalar4 [OF assms(1,2) _ assms(3)] p, of "max 0 (4 * (w b div 4))"]
      ww_D [OF ww_loop_j_unroll4x4 [OF assms(1,2) le] p]
    by (simp add: row4_unroll_def Let_def split_def fst_loop_j4)
qed

lemma ww_row4_simd:
  assumes "0 \<le> i" "i < H" "w b \<le> W"
  shows "writes_within (block_cells c H W) (row4_simd pA pB (the (data c)) a b c i k)"
proof (rule ww_I)
  fix s p assume p: "p \<notin> block_cells c H W"
  have le: "4 * (w b div 4) \<le> W" using assms(3) by linarith
  show "row4_simd pA pB (the (data c)) a b c i k s p = s p"
    using ww_D [OF ww_loop_j_scalar4 [OF assms(1,2) _ assms(3)] p, of "max 0 (4 * (w b div 4))"]
      ww_D [OF ww_loop_j_simd4x4 [OF assms(1,2) le] p]
    by (simp add: row4_simd_def Let_def split_def fst_loop_j4 ARM_NEON_def)
qed

lemma ww_row4_aligned:
  assumes "0 \<le> i" "i < H" "4 * (w b div 4) \<le> W"
  shows "writes_within (block_cells c H W) (row4_aligned pA pB (the (data c)) a b c i k)"
proof (rule ww_I)
  fix s p assume p: "p \<notin> block_cells c H W"
  show "row4_aligned pA pB (the (data c)) a b c i k s p = s p"
    using ww_D [OF ww_loop_j_simd4x4 [OF assms] p]
    by (simp add: row4_aligned_def Let_def)
qed

lemma tile_row_other:
  "q \<in> X \<Longrightarrow> q + 1 \<in> X \<Longrightarrow> q + 2 \<in> X \<Longrightarrow> q + 3 \<in> X \<Longrightarrow> p \<notin> X \<Longrightarrow>
   tile_row q vB0 vB1 vB2 vB3 vA s p = s p"
  by (auto simp: tile_row_def Let_def vst1q_f32_def split: prod.splits)

lemma ww_tile_step:
  assumes "0 \<le> i" "i + 4 \<le> H" "0 \<le> j" "j + 4 \<le> W"
  shows "writes_within (block_cells c H W)
           (tile_step pB (the (data c)) b c vA0 vA1 vA2 vA3 bIdxBase (i * w c) j)"
proof (rule ww_I)
  fix s p assume p: "p \<notin> block_cells c H W"
  have r: "tile_row (cellp c i' j) vB0 vB1 vB2 vB3 vA s' p = s' p"
    if "0 \<le> i'" "i' < H" for i' vB0 vB1 vB2 vB3 vA s'
    using tile_row_other [where X = "block_cells c H W" and p = p and q = "cellp c i' j"]
      that p assms
    by (simp add: to_cellp cellp_in_block)
  show "tile_step pB (the (data c)) b c vA0 vA1 vA2 vA3 bIdxBase (i * w c) j s p = s p"
    using assms by (simp add: tile_step_def Let_def r to_cellp)
qed

lemma ww_tile4x4:
  assumes "0 \<le> i" "i + 4 \<le> H" "4 * m \<le> W"
  shows "writes_within (block_cells c H W)
           (tile4x4 pA pB (the (data c)) a b c aIdx bIdxBase (i * w c) (4 * m))"
proof (rule ww_I)
  fix s p assume p: "p \<notin> block_cells c H W"
  have "writes_within (block_cells c H W)
          (for_range4 (4 * m) (tile_step pB (the (data c)) b c vA0 vA1 vA2 vA3 bIdxBase (i * w c)))"
    for vA0 vA1 vA2 vA3
    using assms by (intro ww_for_range4 ww_tile_step) auto
  from ww_D [OF this p]
  show "tile4x4 pA pB (the (data c)) a b c aIdx bIdxBase (i * w c) (4 * m) s p = s p"
    by (simp add: tile4x4_def Let_def)
qed

subsection \<open>Footprints of the kernels\<close>

lemma ww_guard:
  assumes "\<And>s. K s = (if g then s else F s)" "writes_within X F"
  shows "writes_within X K"
  using assms by (simp add: writes_within_def)

lemma ww_two_phase:
  assumes "writes_within X (\<lambda>s. snd (for_add4 0 (4 * m) body4 s))"
    and "\<And>j. writes_within X (\<lambda>s. snd (for_inc j n body1 s))"
  shows "writes_within X
           (\<lambda>s. case for_add4 0 (4 * m) body4 s of (k, s') \<Rightarrow> snd (for_inc k n body1 s'))"
  using assms by (simp add: writes_within_def split_def)

lemma ww_snd_for_add4:
  "(\<And>t. 0 \<le> t \<Longrightarrow> t + 4 \<le> 4 * m \<Longrightarrow> writes_within X (body t)) \<Longrightarrow>
   writes_within X (\<lambda>s. snd (for_add4 0 (4 * m) body s))"
  using ww_for_add4 [of 0 m X body] by simp

lemma ww_Origin: "writes_within (block_cells c (h a) (w b)) (Origin a b c)"
  by (rule ww_guard [OF Origin_def [unfolded Let_def]])
     (intro ww_for_range ww_acc_mul_dep, simp add: to_cellp cellp_in_block)

lemma ww_Optimize1: "writes_within (block_cells c (h a) (w b)) (Optimize1 a b c)"
  by (rule ww_guard [OF Optimize1_def [unfolded Let_def]])
     (intro ww_for_range ww_row_scalar, simp_all)

lemma ww_Optimize2: "writes_within (block_cells c (h a) (w b)) (Optimize2 a b c)"
  by (rule ww_guard [OF Optimize2_def [unfolded Let_def]])
     (intro ww_for_range ww_row_scalar, simp_all)

lemma ww_Optimize3: "writes_within (block_cells c (h a) (w b)) (Optimize3 a b c)"
  by (rule ww_guard [OF Optimize3_def [unfolded Let_def]])
     (intro ww_for_range ww_row_unroll4, simp_all)

lemma ww_Optimize4: "writes_within (block_cells c (h a) (w b)) (Optimize4 a b c)"
  by (rule ww_guard [OF Optimize4_def [unfolded Let_def]])
     (intro ww_for_range ww_row_unroll4, simp_all)

lemma ww_Optimize5: "writes_within (block_cells c (h a) (w b)) (Optimize5 a b c)"
  by (rule ww_guard [OF Optimize5_def [unfolded Let_def]])
     (intro ww_for_range ww_row_simd4, simp_all)

lemma ww_Optimize6: "writes_within (block_cells c (h a) (w b)) (Optimize6 a b c)"
  by (rule ww_guard [OF Optimize6_def [unfolded Let_def]])
     (intro ww_for_range ww_row_simd4, simp_all)

lemma ww_Optimize7: "writes_within (block_cells c (h a) (w b)) (Optimize7 a b c)"
  by (rule ww_guard [OF Optimize7_def [unfolded Let_def and_not_3]])
     (intro ww_for_range ww_two_phase ww_snd_for_add4 ww_for_inc ww_row4_unroll
        ww_row_unroll4, simp_all)

lemma ww_Optimize8: "writes_within (block_cells c (h a) (w b)) (Optimize8 a b c)"
  by (rule ww_guard [OF Optimize8_def [unfolded Let_def and_not_3]])
     (intro ww_for_range ww_two_phase ww_snd_for_add4 ww_for_inc ww_row4_unroll
        ww_row_unroll4, simp_all)

lemma ww_Optimize9: "writes_within (block_cells c (h a) (w b)) (Optimize9 a b c)"
  by (rule ww_guard [OF Optimize9_def [unfolded Let_def and_not_3]])
     (intro ww_for_range ww_two_phase ww_snd_for_add4 ww_for_inc ww_row4_simd
        ww_row_simd4, simp_all)

lemma ww_Optimize11:
  "writes_within (block_cells c (h a) (4 * (w b div 4))) (Optimize11 a b c)"
  by (rule ww_guard [OF Optimize11_def [unfolded Let_def and_not_3 ARM_NEON_def if_True]])
     (intro ww_for_range ww_snd_for_add4 ww_row4_aligned, simp_all)

lemma ww_Optimize12:
  "writes_within (block_cells c (h a) (4 * (w b div 4))) (Optimize12 a b c)"
  by (rule ww_guard [OF Optimize12_def [unfolded Let_def and_not_3 ARM_NEON_def if_True]])
     (intro ww_for_range ww_snd_for_add4 ww_row4_aligned, simp_all)

lemma ww_Optimize13:
  "writes_within (block_cells c (4 * (h a div 4)) (4 * (w b div 4))) (Optimize13 a b c)"
  by (rule ww_guard [OF Optimize13_def [unfolded Let_def and_not_3 ARM_NEON_def if_True]])
     (intro ww_for_range4 ww_tile4x4, simp_all)

lemma ww_Optimize14:
  "writes_within (block_cells c (4 * (h a div 4)) (4 * (w b div 4))) (Optimize14 a b c)"
  by (rule ww_guard [OF Optimize14_def [unfolded Let_def and_not_3 ARM_NEON_def if_True]])
     (intro ww_for_range4 ww_tile4x4, simp_all)

lemma ww_Optimize15:
  "writes_within (block_cells c (4 * (h a div 4)) (4 * (w b div 4))) (Optimize15 a b c)"
  by (rule ww_guard [OF Optimize15_def [unfolded Let_def and_not_3 ARM_NEON_def if_True]])
     (intro ww_for_range4 ww_tile4x4, simp_all)

lemma ww_Optimize16:
  "writes_within (block_cells c (4 * (h a div 4)) (4 * (w b div 4))) (Optimize16 a b c)"
  by (rule ww_guard [OF Optimize16_def [unfolded Let_def and_not_3 ARM_NEON_def if_True]])
     (intro ww_for_range4 ww_tile4x4, simp_all)

section \<open>Accumulation: what a kernel adds to C\<close>

subsection \<open>Sums over integer ranges\<close>

lemma sum_int_first:
  fixes f :: "int \<Rightarrow> 'a::comm_monoid_add"
  shows "j < n \<Longrightarrow> (\<Sum>t = j..<n. f t) = f j + (\<Sum>t = j + 1..<n. f t)"
proof -
  assume "j < n"
  then have "{j..<n} = insert j {j + 1..<n}" by auto
  then show ?thesis by simp
qed

lemma sum_int4:
  fixes f :: "int \<Rightarrow> 'a::comm_monoid_add"
  shows "(\<Sum>t = j..<j + 4. f t) = f j + f (j + 1) + f (j + 2) + f (j + 3)"
  by (simp add: sum_int_first add.assoc)

lemma sum_int_concat:
  fixes f :: "int \<Rightarrow> 'a::comm_monoid_add"
  assumes "a \<le> b" "b \<le> c"
  shows "(\<Sum>t = a..<b. f t) + (\<Sum>t = b..<c. f t) = (\<Sum>t = a..<c. f t)"
proof -
  have "{a..<c} = {a..<b} \<union> {b..<c}" "{a..<b} \<inter> {b..<c} = {}" using assms by auto
  then show ?thesis by (simp add: sum.union_disjoint)
qed

lemma sum_split4:
  fixes f :: "int \<Rightarrow> 'a::comm_monoid_add"
  shows "(\<Sum>t = 0..<4 * (n div 4). f t) + (\<Sum>t = max 0 (4 * (n div 4))..<n. f t)
           = (\<Sum>t = 0..<n. f t)"
proof (cases "0 \<le> n")
  case True
  then have "0 \<le> 4 * (n div 4)" "4 * (n div 4) \<le> n" by (simp_all add: pos_imp_zdiv_nonneg_iff)
  then show ?thesis by (simp add: sum_int_concat max_def)
next
  case False
  then have "4 * (n div 4) < 0" by (simp add: div_neg_pos_less0)
  with False show ?thesis by simp
qed

lemma sum_cadd:
  "(\<Sum>j = lo..<hi. cadd i j (f j) x) =
     (if fst x = i \<and> lo \<le> snd x \<and> snd x < hi then f (snd x) else 0)"
proof -
  have "(\<Sum>j = lo..<hi. cadd i j (f j) x) =
        (\<Sum>j \<in> {lo..<hi}. if snd x = j then (if fst x = i then f j else 0) else 0)"
    by (intro sum.cong) (auto simp: cadd_def prod_eq_iff)
  also have "\<dots> = (if snd x \<in> {lo..<hi} then (if fst x = i then f (snd x) else 0) else 0)"
    by (simp only: sum.delta' finite_atLeastLessThan_int)
  finally show ?thesis by auto
qed

lemma sum_rowc_i:
  "(\<Sum>i = 0..<H. rowc a b s W i k x) =
     (if 0 \<le> fst x \<and> fst x < H \<and> 0 \<le> snd x \<and> snd x < W
      then elt a s (fst x) k * elt b s k (snd x) else 0)"
proof -
  have "(\<Sum>i = 0..<H. rowc a b s W i k x) =
        (\<Sum>i \<in> {0..<H}. if fst x = i then
            (if 0 \<le> snd x \<and> snd x < W then elt a s i k * elt b s k (snd x) else 0) else 0)"
    by (intro sum.cong) (auto simp: rowc_def)
  also have "\<dots> = (if fst x \<in> {0..<H} then
            (if 0 \<le> snd x \<and> snd x < W then elt a s (fst x) k * elt b s k (snd x) else 0) else 0)"
    by (simp only: sum.delta' finite_atLeastLessThan_int)
  finally show ?thesis by auto
qed

subsection \<open>The accumulated store\<close>

lemma decode_cellp:
  "0 \<le> j \<Longrightarrow> j < w c \<Longrightarrow>
   (cellp c i j - the (data c)) div w c = i \<and> (cellp c i j - the (data c)) mod w c = j"
  by (simp add: cellp_def)

lemma cellp_decode:
  "cellp c ((p - the (data c)) div w c) ((p - the (data c)) mod w c) = p"
  by (simp add: cellp_def)

lemma cellp_in_cells:
  "data c \<noteq> None \<Longrightarrow> 0 \<le> i \<Longrightarrow> i < h c \<Longrightarrow> 0 \<le> j \<Longrightarrow> j < w c \<Longrightarrow> cellp c i j \<in> cells c"
  using block_cells_full [of c] cellp_in_block [of i "h c" j "w c" c] by simp

lemma cells_decode:
  assumes "p \<in> cells c"
  shows "0 \<le> (p - the (data c)) div w c \<and> (p - the (data c)) div w c < h c \<and>
         0 \<le> (p - the (data c)) mod w c \<and> (p - the (data c)) mod w c < w c"
proof -
  have "data c \<noteq> None" using assms by (auto simp: cells_def split: option.splits)
  with assms have "p \<in> block_cells c (h c) (w c)" by (simp add: block_cells_full)
  then obtain i j where "p = cellp c i j" "0 \<le> i" "i < h c" "0 \<le> j" "j < w c"
    by (auto simp: block_cells_def)
  then show ?thesis by (simp add: decode_cellp)
qed

lemma acc_zero: "acc c s (\<lambda>x. 0) = s"
  by (auto simp: acc_def fun_eq_iff)

lemma acc_other: "p \<notin> cells c \<Longrightarrow> acc c s D p = s p"
  by (simp add: acc_def)

lemma acc_cong:
  assumes "\<And>i j. 0 \<le> i \<Longrightarrow> i < h c \<Longrightarrow> 0 \<le> j \<Longrightarrow> j < w c \<Longrightarrow> D (i, j) = D' (i, j)"
  shows "acc c s D = acc c s D'"
proof
  fix p
  show "acc c s D p = acc c s D' p"
    using cells_decode [of p c] assms by (simp add: acc_def)
qed

lemma acc_get:
  assumes "data c \<noteq> None" "0 \<le> i" "i < h c" "0 \<le> j" "j < w c"
  shows "acc c s D (cellp c i j) = s (cellp c i j) + D (i, j)"
  using cellp_in_cells [OF assms] decode_cellp [OF assms(4,5)] by (simp add: acc_def)

lemma acc_set:
  assumes "data c \<noteq> None" "0 \<le> i" "i < h c" "0 \<le> j" "j < w c"
  shows "(acc c s D)(cellp c i j := v) = acc c s (D((i, j) := v - s (cellp c i j)))"
proof
  fix p
  show "((acc c s D)(cellp c i j := v)) p = acc c s (D((i, j) := v - s (cellp c i j))) p"
  proof (cases "p = cellp c i j")
    case True
    then show ?thesis
      using cellp_in_cells [OF assms] decode_cellp [OF assms(4,5)] by (simp add: acc_def)
  next
    case False
    then have "((p - the (data c)) div w c, (p - the (data c)) mod w c) \<noteq> (i, j)"
      using cellp_decode [of c p] by auto
    with False show ?thesis by (auto simp: acc_def)
  qed
qed

lemma acc_read:
  assumes "cells c \<inter> cells m = {}" "data m \<noteq> None" "0 \<le> i" "i < h m" "0 \<le> j" "j < w m"
  shows "acc c s D (cellp m i j) = elt m s i j"
  using cellp_in_cells [OF assms(2-6)] assms(1) by (auto simp: acc_def elt_def)

lemma valid_facts:
  assumes "CheckParam a b c"
  shows "w a = h b" "h a = h c" "w b = w c" "data a \<noteq> None" "data b \<noteq> None" "data c \<noteq> None"
  using assms by (auto simp: CheckParam_def split: if_splits)

lemma upd_cadd: "D((i, j) := D (i, j) + v) = (\<lambda>x. D x + cadd i j v x)"
  by (auto simp: cadd_def)

subsection \<open>Loops that accumulate\<close>

lemma for_inc_sum:
  assumes "\<And>j D. j0 \<le> j \<Longrightarrow> j < n \<Longrightarrow> body j (S D) = S (\<lambda>x. D x + F j x)"
  shows "for_inc j0 n body (S D) = (max j0 n, S (\<lambda>x. D x + (\<Sum>t = j0..<n. F t x)))"
  using assms
proof (induction "nat (n - j0)" arbitrary: j0 D)
  case 0
  then show ?case by (simp add: for_inc_stop)
next
  case (Suc d)
  then have lt: "j0 < n" by simp
  have "for_inc j0 n body (S D) = for_inc (j0 + 1) n body (S (\<lambda>x. D x + F j0 x))"
    using lt Suc.prems [of j0 D] by (simp add: for_inc_step)
  also have "\<dots> = (max (j0 + 1) n,
      S (\<lambda>x. (D x + F j0 x) + (\<Sum>t = j0 + 1..<n. F t x)))"
    using Suc.hyps(2) Suc.prems by (intro Suc.hyps(1)) auto
  finally show ?case using lt by (simp add: sum_int_first add.assoc max_def)
qed

lemma for_add4_sum:
  assumes "\<And>j D. j0 \<le> j \<Longrightarrow> j + 4 \<le> 4 * m \<Longrightarrow>
             body j (S D) = S (\<lambda>x. D x + (\<Sum>t = j..<j + 4. F t x))"
    and "4 dvd j0"
  shows "for_add4 j0 (4 * m) body (S D) =
           (max j0 (4 * m), S (\<lambda>x. D x + (\<Sum>t = j0..<4 * m. F t x)))"
  using assms
proof (induction "nat (4 * m - j0)" arbitrary: j0 D rule: less_induct)
  case less
  show ?case
  proof (cases "j0 < 4 * m")
    case False
    then show ?thesis by (simp add: for_add4_stop)
  next
    case True
    have le: "j0 + 4 \<le> 4 * m" using True less.prems(2) by (auto elim!: dvdE)
    have "for_add4 j0 (4 * m) body (S D) =
          for_add4 (j0 + 4) (4 * m) body (S (\<lambda>x. D x + (\<Sum>t = j0..<j0 + 4. F t x)))"
      using True le less.prems(1) [of j0 D] by (simp add: for_add4_step)
    also have "\<dots> = (max (j0 + 4) (4 * m),
        S (\<lambda>x. (D x + (\<Sum>t = j0..<j0 + 4. F t x)) + (\<Sum>t = j0 + 4..<4 * m. F t x)))"
      using True less.prems by (intro less.hyps) auto
    also have "(\<lambda>x. (D x + (\<Sum>t = j0..<j0 + 4. F t x)) + (\<Sum>t = j0 + 4..<4 * m. F t x))
      = (\<lambda>x. D x + (\<Sum>t = j0..<4 * m. F t x))"
      using le by (simp add: add.assoc sum_int_concat)
    finally show ?thesis using le by (simp add: max_def)
  qed
qed

lemma acc_eqI: "D = D' \<Longrightarrow> acc c s D = acc c s D'"
  by simp

lemma acc_rd:
  assumes v: "CheckParam a b c" and sp: "separate a b c"
  shows "\<And>i k D. 0 \<le> i \<Longrightarrow> i < h a \<Longrightarrow> 0 \<le> k \<Longrightarrow> k < w a \<Longrightarrow>
           acc c s D (cellp a i k) = elt a s i k"
    and "\<And>k j D. 0 \<le> k \<Longrightarrow> k < w a \<Longrightarrow> 0 \<le> j \<Longrightarrow> j < w b \<Longrightarrow>
           acc c s D (cellp b k j) = elt b s k j"
    and "\<And>i j D. 0 \<le> i \<Longrightarrow> i < h a \<Longrightarrow> 0 \<le> j \<Longrightarrow> j < w b \<Longrightarrow>
           acc c s D (cellp c i j) = s (cellp c i j) + D (i, j)"
    and "\<And>i j D y. 0 \<le> i \<Longrightarrow> i < h a \<Longrightarrow> 0 \<le> j \<Longrightarrow> j < w b \<Longrightarrow>
           (acc c s D)(cellp c i j := y) = acc c s (D((i, j) := y - s (cellp c i j)))"
proof -
  note f = valid_facts [OF v]
  have da: "cells c \<inter> cells a = {}" and db: "cells c \<inter> cells b = {}"
    using sp by (auto simp: separate_def)
  show "\<And>i k D. 0 \<le> i \<Longrightarrow> i < h a \<Longrightarrow> 0 \<le> k \<Longrightarrow> k < w a \<Longrightarrow>
           acc c s D (cellp a i k) = elt a s i k"
    using acc_read [OF da f(4)] by simp
  show "\<And>k j D. 0 \<le> k \<Longrightarrow> k < w a \<Longrightarrow> 0 \<le> j \<Longrightarrow> j < w b \<Longrightarrow>
           acc c s D (cellp b k j) = elt b s k j"
    using acc_read [OF db f(5)] f(1) by simp
  show "\<And>i j D. 0 \<le> i \<Longrightarrow> i < h a \<Longrightarrow> 0 \<le> j \<Longrightarrow> j < w b \<Longrightarrow>
           acc c s D (cellp c i j) = s (cellp c i j) + D (i, j)"
    using acc_get [OF f(6)] f(2,3) by simp
  show "\<And>i j D y. 0 \<le> i \<Longrightarrow> i < h a \<Longrightarrow> 0 \<le> j \<Longrightarrow> j < w b \<Longrightarrow>
           (acc c s D)(cellp c i j := y) = acc c s (D((i, j) := y - s (cellp c i j)))"
    using acc_set [OF f(6)] f(2,3) by simp
qed

lemma div4_le: "4 * ((n::int) div 4) \<le> n"
  by linarith

lemma acc_loop_j_scalar:
  assumes v: "CheckParam a b c" and sp: "separate a b c"
    and r: "0 \<le> i" "i < h a" "0 \<le> k" "k < w a" "0 \<le> j0"
  shows "loop_j_scalar (the (data b)) (the (data c)) b c i k a0 j0 (acc c s D) =
         (max j0 (w b), acc c s (\<lambda>x. D x + (\<Sum>j = j0..<w b. cadd i j (a0 * elt b s k j) x)))"
  unfolding loop_j_scalar_def
proof (rule for_inc_sum [where S = "acc c s" and F = "\<lambda>j. cadd i j (a0 * elt b s k j)"])
  fix j D assume j: "j0 \<le> j" "j < w b"
  note rd = acc_rd [OF v sp]
  show "acc_mul (the (data c)) (i * w c + j) a0 (the (data b)) (k * w b + j) (acc c s D) =
        acc c s (\<lambda>x. D x + cadd i j (a0 * elt b s k j) x)"
    using r j by (simp add: acc_mul_def to_cellp rd flip: upd_cadd)
qed

lemma acc_loop_j_unroll4:
  assumes v: "CheckParam a b c" and sp: "separate a b c"
    and r: "0 \<le> i" "i < h a" "0 \<le> k" "k < w a"
  shows "loop_j_unroll4 (the (data b)) (the (data c)) b c i k a0 0 (acc c s D) =
         (max 0 (4 * (w b div 4)),
          acc c s (\<lambda>x. D x + (\<Sum>j = 0..<4 * (w b div 4). cadd i j (a0 * elt b s k j) x)))"
  unfolding loop_j_unroll4_def and_not_3
proof (rule for_add4_sum [where S = "acc c s" and F = "\<lambda>j. cadd i j (a0 * elt b s k j)"])
  fix j D assume j: "0 \<le> j" "j + 4 \<le> 4 * (w b div 4)"
  note rd = acc_rd [OF v sp]
  have jw: "j + 3 < w b" using j div4_le [of "w b"] by linarith
  show "seq [acc_mul (the (data c)) (i * w c + j) a0 (the (data b)) (k * w b + j),
             acc_mul (the (data c)) (i * w c + j + 1) a0 (the (data b)) (k * w b + j + 1),
             acc_mul (the (data c)) (i * w c + j + 2) a0 (the (data b)) (k * w b + j + 2),
             acc_mul (the (data c)) (i * w c + j + 3) a0 (the (data b)) (k * w b + j + 3)]
          (acc c s D) =
        acc c s (\<lambda>x. D x + (\<Sum>t = j..<j + 4. cadd i t (a0 * elt b s k t) x))"
    using r j jw
    by (simp add: acc_mul_def to_cellp rd, intro acc_eqI)
       (auto simp: fun_eq_iff sum_int4 cadd_def)
qed simp

lemma acc_loop_j_simd4:
  assumes v: "CheckParam a b c" and sp: "separate a b c"
    and r: "0 \<le> i" "i < h a" "0 \<le> k" "k < w a"
  shows "loop_j_simd4 (the (data b)) (the (data c)) b c i k (vdupq_n_f32 a0) 0 (acc c s D) =
         (max 0 (4 * (w b div 4)),
          acc c s (\<lambda>x. D x + (\<Sum>j = 0..<4 * (w b div 4). cadd i j (a0 * elt b s k j) x)))"
  unfolding loop_j_simd4_def and_not_3
proof (rule for_add4_sum [where S = "acc c s" and F = "\<lambda>j. cadd i j (a0 * elt b s k j)"])
  fix j D assume j: "0 \<le> j" "j + 4 \<le> 4 * (w b div 4)"
  note rd = acc_rd [OF v sp]
  have jw: "j + 3 < w b" using j div4_le [of "w b"] by linarith
  show "(let vB = vld1q_f32 (the (data b) + (k * w b + j)) (acc c s D);
             vC = vld1q_f32 (the (data c) + (i * w c + j)) (acc c s D);
             vC = vfmaq_f32 vC (vdupq_n_f32 a0) vB
         in vst1q_f32 (the (data c) + (i * w c + j)) vC (acc c s D)) =
        acc c s (\<lambda>x. D x + (\<Sum>t = j..<j + 4. cadd i t (a0 * elt b s k t) x))"
    using r j jw
    by (simp add: Let_def vld1q_f32_def vst1q_f32_def vfmaq_f32_def vdupq_n_f32_def to_cellp rd,
        intro acc_eqI)
       (auto simp: fun_eq_iff sum_int4 cadd_def)
qed simp

lemma rowc_split:
  "(\<Sum>j = 0..<4 * (W div 4). cadd i j (f j) x) + (\<Sum>j = max 0 (4 * (W div 4))..<W. cadd i j (f j) x)
     = (if fst x = i \<and> 0 \<le> snd x \<and> snd x < W then f (snd x) else 0)"
  by (subst sum_split4) (rule sum_cadd)

lemma acc_row_scalar:
  assumes v: "CheckParam a b c" and sp: "separate a b c"
    and r: "0 \<le> i" "i < h a" "0 \<le> k" "k < w a"
  shows "row_scalar (the (data a)) (the (data b)) (the (data c)) a b c i k (acc c s D) =
         acc c s (\<lambda>x. D x + rowc a b s (w b) i k x)"
  using r
  by (simp add: row_scalar_def to_cellp acc_rd [OF v sp] acc_loop_j_scalar [OF v sp]
      sum_cadd rowc_def)

lemma acc_row_unroll4:
  assumes v: "CheckParam a b c" and sp: "separate a b c"
    and r: "0 \<le> i" "i < h a" "0 \<le> k" "k < w a"
  shows "row_unroll4 (the (data a)) (the (data b)) (the (data c)) a b c i k (acc c s D) =
         acc c s (\<lambda>x. D x + rowc a b s (w b) i k x)"
  using r
  by (simp add: row_unroll4_def Let_def to_cellp acc_rd [OF v sp] acc_loop_j_scalar [OF v sp]
      acc_loop_j_unroll4 [OF v sp] add.assoc rowc_split rowc_def)

lemma acc_row_simd4:
  assumes v: "CheckParam a b c" and sp: "separate a b c"
    and r: "0 \<le> i" "i < h a" "0 \<le> k" "k < w a"
  shows "row_simd4 (the (data a)) (the (data b)) (the (data c)) a b c i k (acc c s D) =
         acc c s (\<lambda>x. D x + rowc a b s (w b) i k x)"
  using r
  by (simp add: row_simd4_def Let_def ARM_NEON_def to_cellp acc_rd [OF v sp]
      acc_loop_j_scalar [OF v sp] acc_loop_j_simd4 [OF v sp] add.assoc rowc_split rowc_def)

lemma acc_loop_j_scalar4:
  assumes v: "CheckParam a b c" and sp: "separate a b c"
    and r: "0 \<le> i" "i < h a" "0 \<le> k" "k + 3 < w a" "0 \<le> j0"
  shows "loop_j_scalar4 (the (data b)) (the (data c)) b c i k a0 a1 a2 a3 j0 (acc c s D) =
         (max j0 (w b),
          acc c s (\<lambda>x. D x + (\<Sum>j = j0..<w b. cadd i j (quad b s k a0 a1 a2 a3 j) x)))"
  unfolding loop_j_scalar4_def
proof (rule for_inc_sum [where S = "acc c s" and F = "\<lambda>j. cadd i j (quad b s k a0 a1 a2 a3 j)"])
  fix j D assume j: "j0 \<le> j" "j < w b"
  note rd = acc_rd [OF v sp]
  show "acc_mul4 (the (data b)) (the (data c)) b k a0 a1 a2 a3 (i * w c + j) j (acc c s D) =
        acc c s (\<lambda>x. D x + cadd i j (quad b s k a0 a1 a2 a3 j) x)"
    using r j
    by (simp add: acc_mul4_def acc_mul_def to_cellp rd, intro acc_eqI)
       (auto simp: fun_eq_iff cadd_def quad_def)
qed

lemma acc_loop_j_unroll4x4:
  assumes v: "CheckParam a b c" and sp: "separate a b c"
    and r: "0 \<le> i" "i < h a" "0 \<le> k" "k + 3 < w a"
  shows "loop_j_unroll4x4 (the (data b)) (the (data c)) b c i k a0 a1 a2 a3 0 (acc c s D) =
         (max 0 (4 * (w b div 4)),
          acc c s (\<lambda>x. D x +
            (\<Sum>j = 0..<4 * (w b div 4). cadd i j (quad b s k a0 a1 a2 a3 j) x)))"
  unfolding loop_j_unroll4x4_def and_not_3
proof (rule for_add4_sum [where S = "acc c s"
        and F = "\<lambda>j. cadd i j (quad b s k a0 a1 a2 a3 j)"])
  fix j D assume j: "0 \<le> j" "j + 4 \<le> 4 * (w b div 4)"
  note rd = acc_rd [OF v sp]
  have jw: "j + 3 < w b" using j div4_le [of "w b"] by linarith
  show "seq [acc_mul4 (the (data b)) (the (data c)) b k a0 a1 a2 a3 (i * w c + j) j,
             acc_mul4 (the (data b)) (the (data c)) b k a0 a1 a2 a3 (i * w c + j + 1) (j + 1),
             acc_mul4 (the (data b)) (the (data c)) b k a0 a1 a2 a3 (i * w c + j + 2) (j + 2),
             acc_mul4 (the (data b)) (the (data c)) b k a0 a1 a2 a3 (i * w c + j + 3) (j + 3)]
          (acc c s D) =
        acc c s (\<lambda>x. D x + (\<Sum>t = j..<j + 4. cadd i t (quad b s k a0 a1 a2 a3 t) x))"
    using r j jw
    by (simp add: acc_mul4_def acc_mul_def to_cellp rd, intro acc_eqI)
       (auto simp: fun_eq_iff sum_int4 cadd_def quad_def)
qed simp

lemma acc_loop_j_simd4x4:
  assumes v: "CheckParam a b c" and sp: "separate a b c"
    and r: "0 \<le> i" "i < h a" "0 \<le> k" "k + 3 < w a"
  shows "loop_j_simd4x4 (the (data b)) (the (data c)) b c i k
           (vdupq_n_f32 a0) (vdupq_n_f32 a1) (vdupq_n_f32 a2) (vdupq_n_f32 a3) 0 (acc c s D) =
         (max 0 (4 * (w b div 4)),
          acc c s (\<lambda>x. D x +
            (\<Sum>j = 0..<4 * (w b div 4). cadd i j (quad b s k a0 a1 a2 a3 j) x)))"
  unfolding loop_j_simd4x4_def and_not_3
proof (rule for_add4_sum [where S = "acc c s"
        and F = "\<lambda>j. cadd i j (quad b s k a0 a1 a2 a3 j)"])
  fix j D assume j: "0 \<le> j" "j + 4 \<le> 4 * (w b div 4)"
  note rd = acc_rd [OF v sp]
  have jw: "j + 3 < w b" using j div4_le [of "w b"] by linarith
  show "(let vB0 = vld1q_f32 (the (data b) + (k * w b + j)) (acc c s D);
             vB1 = vld1q_f32 (the (data b) + ((k + 1) * w b + j)) (acc c s D);
             vB2 = vld1q_f32 (the (data b) + ((k + 2) * w b + j)) (acc c s D);
             vB3 = vld1q_f32 (the (data b) + ((k + 3) * w b + j)) (acc c s D);
             vC = vld1q_f32 (the (data c) + (i * w c + j)) (acc c s D);
             vC = vfmaq_f32 vC (vdupq_n_f32 a0) vB0;
             vC = vfmaq_f32 vC (vdupq_n_f32 a1) vB1;
             vC = vfmaq_f32 vC (vdupq_n_f32 a2) vB2;
             vC = vfmaq_f32 vC (vdupq_n_f32 a3) vB3
         in vst1q_f32 (the (data c) + (i * w c + j)) vC (acc c s D)) =
        acc c s (\<lambda>x. D x + (\<Sum>t = j..<j + 4. cadd i t (quad b s k a0 a1 a2 a3 t) x))"
    using r j jw
    by (simp add: Let_def vld1q_f32_def vst1q_f32_def vfmaq_f32_def vdupq_n_f32_def to_cellp rd,
        intro acc_eqI)
       (auto simp: fun_eq_iff sum_int4 cadd_def quad_def)
qed simp

lemma quad_rowc:
  "(if fst x = i \<and> 0 \<le> snd x \<and> snd x < W
    then quad b s k (elt a s i k) (elt a s i (k + 1)) (elt a s i (k + 2)) (elt a s i (k + 3)) (snd x)
    else 0) = (\<Sum>k' = k..<k + 4. rowc a b s W i k' x)"
  by (simp add: sum_int4 rowc_def quad_def)

lemma acc_row4_unroll:
  assumes v: "CheckParam a b c" and sp: "separate a b c"
    and r: "0 \<le> i" "i < h a" "0 \<le> k" "k + 3 < w a"
  shows "row4_unroll (the (data a)) (the (data b)) (the (data c)) a b c i k (acc c s D) =
         acc c s (\<lambda>x. D x + (\<Sum>k' = k..<k + 4. rowc a b s (w b) i k' x))"
  using r
  by (simp add: row4_unroll_def Let_def to_cellp acc_rd [OF v sp] acc_loop_j_scalar4 [OF v sp]
      acc_loop_j_unroll4x4 [OF v sp] add.assoc rowc_split quad_rowc)

lemma acc_row4_simd:
  assumes v: "CheckParam a b c" and sp: "separate a b c"
    and r: "0 \<le> i" "i < h a" "0 \<le> k" "k + 3 < w a"
  shows "row4_simd (the (data a)) (the (data b)) (the (data c)) a b c i k (acc c s D) =
         acc c s (\<lambda>x. D x + (\<Sum>k' = k..<k + 4. rowc a b s (w b) i k' x))"
  using r
  by (simp add: row4_simd_def Let_def ARM_NEON_def to_cellp acc_rd [OF v sp]
      acc_loop_j_scalar4 [OF v sp] acc_loop_j_simd4x4 [OF v sp] add.assoc rowc_split quad_rowc)







subsection \<open>Loop nests that accumulate\<close>

lemma acc_for_range:
  assumes "\<And>t D. 0 \<le> t \<Longrightarrow> t < n \<Longrightarrow> body t (acc c s D) = acc c s (\<lambda>x. D x + F t x)"
  shows "for_range n body (acc c s D) = acc c s (\<lambda>x. D x + (\<Sum>t = 0..<n. F t x))"
  unfolding for_range_def
  using for_inc_sum [where S = "acc c s" and F = F and ?j0.0 = 0 and n = n and D = D, OF assms]
  by simp

lemma acc_for_add4:
  assumes "\<And>t D. 0 \<le> t \<Longrightarrow> t + 4 \<le> 4 * m \<Longrightarrow>
             body t (acc c s D) = acc c s (\<lambda>x. D x + (\<Sum>t' = t..<t + 4. F t' x))"
  shows "for_add4 0 (4 * m) body (acc c s D) =
           (max 0 (4 * m), acc c s (\<lambda>x. D x + (\<Sum>t = 0..<4 * m. F t x)))"
  using for_add4_sum [where S = "acc c s" and F = F and ?j0.0 = 0 and m = m and D = D, OF assms]
  by simp


lemma acc_two_phase:
  assumes s4: "\<And>t D. 0 \<le> t \<Longrightarrow> t + 4 \<le> 4 * (n div 4) \<Longrightarrow>
             body4 t (acc c s D) = acc c s (\<lambda>x. D x + (\<Sum>t' = t..<t + 4. F t' x))"
    and s1: "\<And>t D. 0 \<le> t \<Longrightarrow> t < n \<Longrightarrow> body1 t (acc c s D) = acc c s (\<lambda>x. D x + F t x)"
  shows "(case for_add4 0 (4 * (n div 4)) body4 (acc c s D) of
            (k, s') \<Rightarrow> snd (for_inc k n body1 s')) =
         acc c s (\<lambda>x. D x + (\<Sum>t = 0..<n. F t x))"
proof -
  have "for_inc (max 0 (4 * (n div 4))) n body1
          (acc c s (\<lambda>x. D x + (\<Sum>t = 0..<4 * (n div 4). F t x))) =
        (max (max 0 (4 * (n div 4))) n,
         acc c s (\<lambda>x. (D x + (\<Sum>t = 0..<4 * (n div 4). F t x))
                     + (\<Sum>t = max 0 (4 * (n div 4))..<n. F t x)))"
    by (rule for_inc_sum [where S = "acc c s" and F = F]) (use s1 in auto)
  then show ?thesis
    by (simp add: acc_for_add4 [where F = F, OF s4] add.assoc sum_split4)
qed


lemma acc_for_range_swap4:
  assumes "\<And>i D. 0 \<le> i \<Longrightarrow> i < n \<Longrightarrow>
             body i (acc c s D) = acc c s (\<lambda>x. D x + (\<Sum>t' = t..<t + 4. G i t' x))"
  shows "for_range n body (acc c s D) =
           acc c s (\<lambda>x. D x + (\<Sum>t' = t..<t + 4. \<Sum>i = 0..<n. G i t' x))"
  by (subst sum.swap) (rule acc_for_range [where F = "\<lambda>i x. \<Sum>t' = t..<t + 4. G i t' x", OF assms])


subsection \<open>What each kernel adds to C\<close>

lemma acc_Origin:
  assumes v: "CheckParam a b c" and sp: "separate a b c"
  shows "Origin a b c (acc c s D) =
         acc c s (\<lambda>x. D x + (\<Sum>i = 0..<h a. \<Sum>j = 0..<w b. \<Sum>k = 0..<w a.
                    cadd i j (elt a s i k * elt b s k j) x))"
proof -
  note rd = acc_rd [OF v sp]
  have step: "acc_mul (the (data c)) (i * w c + j)
                (acc c s D' (the (data a) + (i * w a + k))) (the (data b)) (k * w b + j)
                (acc c s D') =
              acc c s (\<lambda>x. D' x + cadd i j (elt a s i k * elt b s k j) x)"
    if "0 \<le> i" "i < h a" "0 \<le> j" "j < w b" "0 \<le> k" "k < w a" for i j k D'
    using that by (simp add: acc_mul_def to_cellp rd flip: upd_cadd)
  show ?thesis
    unfolding Origin_def Let_def using v
    by (simp, intro acc_for_range step)
qed

lemma acc_Optimize1:
  assumes v: "CheckParam a b c" and sp: "separate a b c"
  shows "Optimize1 a b c (acc c s D) =
         acc c s (\<lambda>x. D x + (\<Sum>i = 0..<h a. \<Sum>k = 0..<w a. rowc a b s (w b) i k x))"
  unfolding Optimize1_def Let_def using v
  by (simp, intro acc_for_range acc_row_scalar [OF v sp])

lemma acc_Optimize2:
  assumes v: "CheckParam a b c" and sp: "separate a b c"
  shows "Optimize2 a b c (acc c s D) =
         acc c s (\<lambda>x. D x + (\<Sum>k = 0..<w a. \<Sum>i = 0..<h a. rowc a b s (w b) i k x))"
  unfolding Optimize2_def Let_def using v
  by (simp, intro acc_for_range acc_row_scalar [OF v sp])

lemma acc_Optimize3:
  assumes v: "CheckParam a b c" and sp: "separate a b c"
  shows "Optimize3 a b c (acc c s D) =
         acc c s (\<lambda>x. D x + (\<Sum>i = 0..<h a. \<Sum>k = 0..<w a. rowc a b s (w b) i k x))"
  unfolding Optimize3_def Let_def using v
  by (simp, intro acc_for_range acc_row_unroll4 [OF v sp])

lemma acc_Optimize4:
  assumes v: "CheckParam a b c" and sp: "separate a b c"
  shows "Optimize4 a b c (acc c s D) =
         acc c s (\<lambda>x. D x + (\<Sum>k = 0..<w a. \<Sum>i = 0..<h a. rowc a b s (w b) i k x))"
  unfolding Optimize4_def Let_def using v
  by (simp, intro acc_for_range acc_row_unroll4 [OF v sp])

lemma acc_Optimize5:
  assumes v: "CheckParam a b c" and sp: "separate a b c"
  shows "Optimize5 a b c (acc c s D) =
         acc c s (\<lambda>x. D x + (\<Sum>i = 0..<h a. \<Sum>k = 0..<w a. rowc a b s (w b) i k x))"
  unfolding Optimize5_def Let_def using v
  by (simp, intro acc_for_range acc_row_simd4 [OF v sp])

lemma acc_Optimize6:
  assumes v: "CheckParam a b c" and sp: "separate a b c"
  shows "Optimize6 a b c (acc c s D) =
         acc c s (\<lambda>x. D x + (\<Sum>k = 0..<w a. \<Sum>i = 0..<h a. rowc a b s (w b) i k x))"
  unfolding Optimize6_def Let_def using v
  by (simp, intro acc_for_range acc_row_simd4 [OF v sp])

lemma acc_Optimize7:
  assumes v: "CheckParam a b c" and sp: "separate a b c"
  shows "Optimize7 a b c (acc c s D) =
         acc c s (\<lambda>x. D x + (\<Sum>i = 0..<h a. \<Sum>k = 0..<w a. rowc a b s (w b) i k x))"
  unfolding Optimize7_def Let_def and_not_3 using v
  by (simp, intro acc_for_range acc_two_phase acc_row4_unroll [OF v sp]
        acc_row_unroll4 [OF v sp])
     (use div4_le [of "w a"] in auto)

lemma acc_Optimize8:
  assumes v: "CheckParam a b c" and sp: "separate a b c"
  shows "Optimize8 a b c (acc c s D) =
         acc c s (\<lambda>x. D x + (\<Sum>k = 0..<w a. \<Sum>i = 0..<h a. rowc a b s (w b) i k x))"
  unfolding Optimize8_def Let_def and_not_3 using v
  by (simp, intro acc_two_phase acc_for_range_swap4 acc_for_range acc_row4_unroll [OF v sp]
        acc_row_unroll4 [OF v sp])
     (use div4_le [of "w a"] in auto)

lemma acc_Optimize9:
  assumes v: "CheckParam a b c" and sp: "separate a b c"
  shows "Optimize9 a b c (acc c s D) =
         acc c s (\<lambda>x. D x + (\<Sum>i = 0..<h a. \<Sum>k = 0..<w a. rowc a b s (w b) i k x))"
  unfolding Optimize9_def Let_def and_not_3 using v
  by (simp, intro acc_for_range acc_two_phase acc_row4_simd [OF v sp]
        acc_row_simd4 [OF v sp])
     (use div4_le [of "w a"] in auto)







lemma gemm_ki:
  assumes v: "CheckParam a b c"
  shows "acc c s (\<lambda>x. 0 + (\<Sum>k = 0..<w a. \<Sum>i = 0..<h a. rowc a b s (w b) i k x)) =
         gemm_acc a b c s"
  unfolding gemm_acc_def
  using valid_facts [OF v] by (intro acc_cong) (simp add: sum_rowc_i)

lemma gemm_ik:
  assumes v: "CheckParam a b c"
  shows "acc c s (\<lambda>x. 0 + (\<Sum>i = 0..<h a. \<Sum>k = 0..<w a. rowc a b s (w b) i k x)) =
         gemm_acc a b c s"
  by (subst sum.swap) (rule gemm_ki [OF v])

lemma gemm_ijk:
  assumes v: "CheckParam a b c"
  shows "acc c s (\<lambda>x. 0 + (\<Sum>i = 0..<h a. \<Sum>j = 0..<w b. \<Sum>k = 0..<w a.
                    cadd i j (elt a s i k * elt b s k j) x)) =
         gemm_acc a b c s"
proof -
  have "(\<Sum>i = 0..<h a. \<Sum>j = 0..<w b. \<Sum>k = 0..<w a. cadd i j (elt a s i k * elt b s k j) x) =
        (\<Sum>i = 0..<h a. \<Sum>k = 0..<w a. rowc a b s (w b) i k x)" for x
    by (subst sum.swap [of _ "{0..<w a}"]) (simp add: sum_cadd rowc_def)
  then show ?thesis using gemm_ik [OF v] by simp
qed


lemma eq_gemm:
  assumes v: "CheckParam a b c" and sp: "separate a b c"
  shows "Origin a b c s = gemm_acc a b c s" "Optimize1 a b c s = gemm_acc a b c s"
    "Optimize2 a b c s = gemm_acc a b c s" "Optimize3 a b c s = gemm_acc a b c s"
    "Optimize4 a b c s = gemm_acc a b c s" "Optimize5 a b c s = gemm_acc a b c s"
    "Optimize6 a b c s = gemm_acc a b c s" "Optimize7 a b c s = gemm_acc a b c s"
    "Optimize8 a b c s = gemm_acc a b c s" "Optimize9 a b c s = gemm_acc a b c s"
  using acc_Origin [OF v sp, of s "\<lambda>x. 0"] acc_Optimize1 [OF v sp, of s "\<lambda>x. 0"]
    acc_Optimize2 [OF v sp, of s "\<lambda>x. 0"] acc_Optimize3 [OF v sp, of s "\<lambda>x. 0"]
    acc_Optimize4 [OF v sp, of s "\<lambda>x. 0"] acc_Optimize5 [OF v sp, of s "\<lambda>x. 0"]
    acc_Optimize6 [OF v sp, of s "\<lambda>x. 0"] acc_Optimize7 [OF v sp, of s "\<lambda>x. 0"]
    acc_Optimize8 [OF v sp, of s "\<lambda>x. 0"] acc_Optimize9 [OF v sp, of s "\<lambda>x. 0"]
  by (simp_all only: acc_zero gemm_ik [OF v] gemm_ki [OF v] gemm_ijk [OF v])


lemma gemm_acc_elt:
  assumes v: "CheckParam a b c" and r: "0 \<le> i" "i < h c" "0 \<le> j" "j < w c"
  shows "elt c (gemm_acc a b c s) i j = elt c s i j + product_at a b s i j"
  using acc_get [OF valid_facts(6) [OF v] r]
  by (simp add: gemm_acc_def elt_def product_at_def)

lemma gemm_acc_other: "p \<notin> cells c \<Longrightarrow> gemm_acc a b c s p = s p"
  by (simp add: gemm_acc_def acc_other)

lemma gemm_acc_product:
  assumes v: "CheckParam a b c" and sp: "separate a b c" and r: "0 \<le> i" "i < h c" "0 \<le> j" "j < w c"
  shows "product_at a b (gemm_acc a b c s) i j = product_at a b s i j"
  unfolding product_at_def
proof (rule sum.cong)
  fix k assume "k \<in> {0..<w a}"
  then show "elt a (gemm_acc a b c s) i k * elt b (gemm_acc a b c s) k j =
             elt a s i k * elt b s k j"
    using acc_rd(1,2) [OF v sp] r valid_facts [OF v] by (simp add: gemm_acc_def elt_def)
qed simp

lemma gemm_acc_twice:
  assumes v: "CheckParam a b c" and sp: "separate a b c" and r: "0 \<le> i" "i < h c" "0 \<le> j" "j < w c"
  shows "elt c (gemm_acc a b c (gemm_acc a b c s)) i j =
         elt c (gemm_acc a b c s) i j + product_at a b s i j"
  using gemm_acc_elt [OF v r, of "gemm_acc a b c s"] gemm_acc_product [OF v sp r, of s]
  by simp


lemma agreesI:
  assumes "K a b c s = Origin a b c s"
  shows "agrees_with_Origin K a b c s"
  by (simp add: agrees_with_Origin_def assms EPSILON_def)

lemma check_modeI:
  assumes v1: "CheckParam a b c" and sp1: "separate a b c"
    and v2: "CheckParam a b c'" and sp2: "separate a b c'"
    and dj: "cells c \<inter> cells c' = {}" and z: "\<forall>p\<in>cells c \<union> cells c'. s p = 0"
    and K: "\<And>s. K a b c' s = gemm_acc a b c' s"
  shows "check_mode K a b c c' s"
proof -
  let ?s1 = "gemm_acc a b c s"
  let ?s2 = "gemm_acc a b c' ?s1"
  note f1 = valid_facts [OF v1] and f2 = valid_facts [OF v2]
  have el: "\<bar>elt c ?s2 i j - elt c' ?s2 i j\<bar> \<le> EPSILON"
    if r: "0 \<le> i" "i < h c" "0 \<le> j" "j < w c" for i j
  proof -
    have r': "0 \<le> i" "i < h c'" "0 \<le> j" "j < w c'" using r f1 f2 by simp_all
    have in1: "cellp c i j \<in> cells c" using cellp_in_cells [OF f1(6) r] .
    have in2: "cellp c' i j \<in> cells c'" using cellp_in_cells [OF f2(6) r'] .
    have "elt c ?s2 i j = elt c ?s1 i j"
      using in1 dj by (auto simp: elt_def intro!: gemm_acc_other)
    also have "\<dots> = elt c s i j + product_at a b s i j" by (rule gemm_acc_elt [OF v1 r])
    also have "elt c s i j = 0" using z in1 by (simp add: elt_def)
    finally have x: "elt c ?s2 i j = product_at a b s i j" by simp
    have "elt c' ?s2 i j = elt c' ?s1 i j + product_at a b ?s1 i j"
      by (rule gemm_acc_elt [OF v2 r'])
    also have "elt c' ?s1 i j = elt c' s i j"
      using in2 dj by (auto simp: elt_def intro!: gemm_acc_other)
    also have "elt c' s i j = 0" using z in2 by (simp add: elt_def)
    also have "product_at a b ?s1 i j = product_at a b s i j"
      by (rule gemm_acc_product [OF v1 sp1 r])
    finally have y: "elt c' ?s2 i j = product_at a b s i j" by simp
    show ?thesis by (simp add: x y EPSILON_def)
  qed
  have "CheckResult c c' ?s2"
    unfolding CheckResult_char using f1 f2 el by simp
  then show ?thesis
    by (simp add: check_mode_def K eq_gemm(1) [OF v1 sp1])
qed

section \<open>Inputs and remainder are left alone\<close>

lemma and_minus_4: "(x::int) AND - 4 = 4 * (x div 4)"
  using and_not_3 [of x] by simp

lemma kernel_invalid:
  assumes "\<not> CheckParam a b c"
  shows "Origin a b c s = s" "Optimize1 a b c s = s" "Optimize2 a b c s = s"
    "Optimize3 a b c s = s" "Optimize4 a b c s = s" "Optimize5 a b c s = s"
    "Optimize6 a b c s = s" "Optimize7 a b c s = s" "Optimize8 a b c s = s"
    "Optimize9 a b c s = s" "Optimize10 a b c s = s" "Optimize11 a b c s = s"
    "Optimize12 a b c s = s" "Optimize13 a b c s = s" "Optimize14 a b c s = s"
    "Optimize15 a b c s = s" "Optimize16 a b c s = s"
  using assms
  by (simp_all add: Origin_def Optimize1_def Optimize2_def Optimize3_def Optimize4_def
      Optimize5_def Optimize6_def Optimize7_def Optimize8_def Optimize9_def Optimize10_def
      Optimize11_def Optimize12_def Optimize13_def Optimize14_def Optimize15_def
      Optimize16_def)

lemma frame_full:
  assumes ww: "writes_within (block_cells c (h a) (w b)) F"
    and inv: "\<not> CheckParam a b c \<Longrightarrow> F s = s"
    and p: "p \<notin> cells c"
  shows "F s p = s p"
proof (cases "CheckParam a b c")
  case True
  note f = valid_facts [OF True]
  have "block_cells c (h a) (w b) = cells c" using block_cells_full [OF f(6)] f by simp
  with ww p show ?thesis by (simp add: ww_D)
next
  case False
  then show ?thesis by (simp add: inv)
qed

lemma frame_aligned:
  assumes ww: "writes_within (block_cells c H W) F" and le: "H \<le> h a" "W \<le> w b"
    and inv: "\<not> CheckParam a b c \<Longrightarrow> F s = s"
    and p: "p \<notin> cells c"
  shows "F s p = s p"
  using frame_full [OF ww_mono [OF ww block_cells_mono [OF le]] inv p] .

lemma kernel_frame:
  assumes p: "p \<notin> cells c"
  shows "Origin a b c s p = s p" "Optimize1 a b c s p = s p" "Optimize2 a b c s p = s p"
    "Optimize3 a b c s p = s p" "Optimize4 a b c s p = s p" "Optimize5 a b c s p = s p"
    "Optimize6 a b c s p = s p" "Optimize7 a b c s p = s p" "Optimize8 a b c s p = s p"
    "Optimize9 a b c s p = s p" "Optimize11 a b c s p = s p" "Optimize12 a b c s p = s p"
    "Optimize13 a b c s p = s p" "Optimize14 a b c s p = s p" "Optimize15 a b c s p = s p"
    "Optimize16 a b c s p = s p"
proof -
  show "Origin a b c s p = s p"
    by (rule frame_full [OF ww_Origin _ p]) (rule kernel_invalid)
  show "Optimize1 a b c s p = s p"
    by (rule frame_full [OF ww_Optimize1 _ p]) (rule kernel_invalid)
  show "Optimize2 a b c s p = s p"
    by (rule frame_full [OF ww_Optimize2 _ p]) (rule kernel_invalid)
  show "Optimize3 a b c s p = s p"
    by (rule frame_full [OF ww_Optimize3 _ p]) (rule kernel_invalid)
  show "Optimize4 a b c s p = s p"
    by (rule frame_full [OF ww_Optimize4 _ p]) (rule kernel_invalid)
  show "Optimize5 a b c s p = s p"
    by (rule frame_full [OF ww_Optimize5 _ p]) (rule kernel_invalid)
  show "Optimize6 a b c s p = s p"
    by (rule frame_full [OF ww_Optimize6 _ p]) (rule kernel_invalid)
  show "Optimize7 a b c s p = s p"
    by (rule frame_full [OF ww_Optimize7 _ p]) (rule kernel_invalid)
  show "Optimize8 a b c s p = s p"
    by (rule frame_full [OF ww_Optimize8 _ p]) (rule kernel_invalid)
  show "Optimize9 a b c s p = s p"
    by (rule frame_full [OF ww_Optimize9 _ p]) (rule kernel_invalid)
  show "Optimize11 a b c s p = s p"
    by (rule frame_aligned [where a = a and b = b, OF ww_Optimize11 _ _ _ p]) (simp_all add: kernel_invalid div4_le)
  show "Optimize12 a b c s p = s p"
    by (rule frame_aligned [where a = a and b = b, OF ww_Optimize12 _ _ _ p]) (simp_all add: kernel_invalid div4_le)
  show "Optimize13 a b c s p = s p"
    by (rule frame_aligned [where a = a and b = b, OF ww_Optimize13 _ _ _ p]) (simp_all add: kernel_invalid div4_le)
  show "Optimize14 a b c s p = s p"
    by (rule frame_aligned [where a = a and b = b, OF ww_Optimize14 _ _ _ p]) (simp_all add: kernel_invalid div4_le)
  show "Optimize15 a b c s p = s p"
    by (rule frame_aligned [where a = a and b = b, OF ww_Optimize15 _ _ _ p]) (simp_all add: kernel_invalid div4_le)
  show "Optimize16 a b c s p = s p"
    by (rule frame_aligned [where a = a and b = b, OF ww_Optimize16 _ _ _ p]) (simp_all add: kernel_invalid div4_le)
qed

lemma inputs_unchangedI:
  assumes sp: "separate a b c"
    and fr: "\<And>p. p \<notin> cells c \<Longrightarrow> K a b c s p = s p"
    and inv: "\<not> CheckParam a b c \<Longrightarrow> K a b c s = s"
  shows "inputs_unchanged K a b c s"
proof (cases "CheckParam a b c")
  case False
  then show ?thesis by (simp add: inputs_unchanged_def inv)
next
  case True
  note f = valid_facts [OF True]
  have "elt a (K a b c s) i k = elt a s i k" if "0 \<le> i" "i < h a" "0 \<le> k" "k < w a" for i k
    using cellp_in_cells [OF f(4) that] sp by (auto simp: elt_def separate_def intro!: fr)
  moreover have "elt b (K a b c s) k j = elt b s k j"
    if "0 \<le> k" "k < h b" "0 \<le> j" "j < w b" for k j
    using cellp_in_cells [OF f(5) that] sp by (auto simp: elt_def separate_def intro!: fr)
  ultimately show ?thesis by (simp add: inputs_unchanged_def)
qed

text \<open>
  Claim C9 (amended).  A kernel writes only through \<^verbatim>\<open>pC\<close>, and nothing keeps C's
  buffer apart from A's or B's.  For every kernel other than \<^verbatim>\<open>Optimize10\<close> and every
  input in which C's \<open>h * w\<close> cells share no address with A's or B's, every element of A
  and every element of B is the same after the call as before it.
\<close>

theorem inputs_read_only:
  assumes "separate a b c"
  shows "list_all (\<lambda>K. inputs_unchanged K a b c s)
           [Origin, Optimize1, Optimize2, Optimize3, Optimize4, Optimize5, Optimize6,
            Optimize7, Optimize8, Optimize9, Optimize11, Optimize12, Optimize13,
            Optimize14, Optimize15, Optimize16]"
  using assms
  by (simp, intro conjI inputs_unchangedI) (simp_all add: kernel_frame kernel_invalid)

lemma scenario_separate: "separate scenario_A scenario_B scenario_C"
  by (auto simp: separate_def cells_def scenario_A_def scenario_B_def scenario_C_def)

theorem inputs_read_only_witness:
  "list_all (\<lambda>K. inputs_unchanged K scenario_A scenario_B scenario_C scenario_mem)
           [Origin, Optimize1, Optimize2, Optimize3, Optimize4, Optimize5, Optimize6,
            Optimize7, Optimize8, Optimize9, Optimize11, Optimize12, Optimize13,
            Optimize14, Optimize15, Optimize16]"
  using inputs_read_only [OF scenario_separate] .

lemma alias_vals: "alias_mem 0 = 2" "alias_mem 1 = 3"
  by (simp_all add: alias_mem_def mem_of_def)

theorem inputs_read_only_counterexample:
  "elt alias_AC alias_mem 0 0 = 2 \<and>
   elt alias_AC (Origin alias_AC alias_B alias_AC alias_mem) 0 0 = 8"
  unfolding Origin_def Let_def
  by (simp add: run_simps elt_def cellp_def alias_AC_def alias_B_def alias_vals cong: run_cong)

lemma outside_block:
  assumes "0 \<le> j" "j < w c" "W \<le> w c" "H \<le> i \<or> W \<le> j"
  shows "cellp c i j \<notin> block_cells c H W"
proof
  assume "cellp c i j \<in> block_cells c H W"
  then obtain i' j' where e: "cellp c i j = cellp c i' j'" and r: "0 \<le> i'" "i' < H" "0 \<le> j'" "j' < W"
    by (auto simp: block_cells_def)
  from r assms have "j' < w c" by simp
  from cellp_inj [OF e assms(1,2) r(3) this] r assms(4) show False by auto
qed

text \<open>
  Claim C10.  For valid parameters the aligned kernels leave the remainder of C as it
  is: \<^verbatim>\<open>Optimize13\<close> to \<^verbatim>\<open>Optimize16\<close> do not change \<open>C[i,j]\<close> when
  \<open>i \<ge> A.h & ~3\<close> or \<open>j \<ge> B.w & ~3\<close>, and \<^verbatim>\<open>Optimize11\<close> and \<^verbatim>\<open>Optimize12\<close> do not
  change \<open>C[i,j]\<close> when \<open>j \<ge> B.w & ~3\<close>.
\<close>

theorem aligned_kernels_leave_remainder:
  assumes "CheckParam a b c" and "0 \<le> i" "i < h c" "0 \<le> j" "j < w c"
  shows "(h a AND NOT 3 \<le> i \<or> w b AND NOT 3 \<le> j \<longrightarrow>
            list_all (\<lambda>K. elt c (K a b c s) i j = elt c s i j)
              [Optimize13, Optimize14, Optimize15, Optimize16]) \<and>
         (w b AND NOT 3 \<le> j \<longrightarrow>
            list_all (\<lambda>K. elt c (K a b c s) i j = elt c s i j) [Optimize11, Optimize12])"
proof -
  note f = valid_facts [OF assms(1)]
  have le: "4 * (w b div 4) \<le> w c" using f div4_le [of "w b"] by simp
  have t: "cellp c i j \<notin> block_cells c (4 * (h a div 4)) (4 * (w b div 4))"
    if "h a AND NOT 3 \<le> i \<or> w b AND NOT 3 \<le> j"
    using that assms(4,5) le by (intro outside_block) (simp_all add: and_minus_4)
  have u: "cellp c i j \<notin> block_cells c (h a) (4 * (w b div 4))"
    if "w b AND NOT 3 \<le> j"
    using that assms(4,5) le by (intro outside_block) (simp_all add: and_minus_4)
  show ?thesis
    using ww_D [OF ww_Optimize13 t] ww_D [OF ww_Optimize14 t] ww_D [OF ww_Optimize15 t]
      ww_D [OF ww_Optimize16 t] ww_D [OF ww_Optimize11 u] ww_D [OF ww_Optimize12 u]
    by (simp add: elt_def)
qed

theorem aligned_kernels_leave_remainder_witness:
  "CheckParam edge_A edge_B edge_C \<and>
   list_all (\<lambda>K. elt edge_C (K edge_A edge_B edge_C edge_mem) 0 4 = elt edge_C edge_mem 0 4)
     [Optimize13, Optimize14, Optimize15, Optimize16] \<and>
   list_all (\<lambda>K. elt edge_C (K edge_A edge_B edge_C edge_mem) 0 4 = elt edge_C edge_mem 0 4)
     [Optimize11, Optimize12]"
proof -
  have v: "CheckParam edge_A edge_B edge_C"
    by (simp add: CheckParam_def edge_A_def edge_B_def edge_C_def)
  have "w edge_B AND NOT 3 \<le> 4" by (simp add: and_minus_4 edge_B_def)
  with aligned_kernels_leave_remainder [OF v, of 0 4 edge_mem] v show ?thesis
    by (simp add: edge_C_def)
qed

section \<open>Agreement with the reference kernel\<close>

lemma passes_checkI:
  assumes v: "CheckParam a b c" and sp: "separate a b c"
    and K: "\<And>s. K a b c s = gemm_acc a b c s"
  shows "passes_check K a b c s"
  unfolding passes_check_def
  using check_modeI [where K = K and c' = c and a = a and b = b and s = s, OF _ _ v sp _ _ K]
  by blast

lemma equivalentI:
  assumes v: "CheckParam a b c" and sp: "separate a b c"
    and K: "\<And>s. K a b c s = gemm_acc a b c s"
  shows "agrees_with_Origin K a b c s \<and> passes_check K a b c s"
  using agreesI [where K = K and a = a and b = b and c = c and s = s]
    passes_checkI [where K = K, OF v sp K] K eq_gemm(1) [OF v sp]
  by simp

text \<open>
  Claim C1 (amended).  For valid parameters, with an output buffer that shares no cell
  with the inputs, each of the scalar kernels \<^verbatim>\<open>Optimize1\<close>, \<^verbatim>\<open>Optimize2\<close>, \<^verbatim>\<open>Optimize3\<close>,
  \<^verbatim>\<open>Optimize4\<close>, \<^verbatim>\<open>Optimize7\<close>, \<^verbatim>\<open>Optimize8\<close> leaves in every element of C a value
  within \<open>EPSILON\<close> of what \<^verbatim>\<open>Origin\<close> leaves there (in exact arithmetic: the same
  value), whatever the dimensions; and the driver's check, \<^verbatim>\<open>Origin\<close> into one zeroed
  buffer, the kernel into another, then \<^verbatim>\<open>CheckResult\<close>, passes.
\<close>

theorem scalar_kernels_agree_with_Origin:
  assumes "CheckParam a b c" and "separate a b c"
  shows "list_all (\<lambda>K. agrees_with_Origin K a b c s \<and> passes_check K a b c s)
           [Optimize1, Optimize2, Optimize3, Optimize4, Optimize7, Optimize8]"
  using equivalentI [where K = Optimize1, OF assms eq_gemm(2) [OF assms]]
    equivalentI [where K = Optimize2, OF assms eq_gemm(3) [OF assms]]
    equivalentI [where K = Optimize3, OF assms eq_gemm(4) [OF assms]]
    equivalentI [where K = Optimize4, OF assms eq_gemm(5) [OF assms]]
    equivalentI [where K = Optimize7, OF assms eq_gemm(8) [OF assms]]
    equivalentI [where K = Optimize8, OF assms eq_gemm(9) [OF assms]]
  by simp

lemma scenario_valid: "CheckParam scenario_A scenario_B scenario_C"
  by (simp add: CheckParam_def scenario_A_def scenario_B_def scenario_C_def)

lemma scenario_check_hyps:
  "CheckParam scenario_A scenario_B scenario_C2 \<and> separate scenario_A scenario_B scenario_C2 \<and>
   cells scenario_C2 \<inter> cells scenario_C = {} \<and>
   (\<forall>p\<in>cells scenario_C2 \<union> cells scenario_C. scenario_mem p = 0)"
proof -
  have "scenario_mem p = 0" if "12 \<le> p" for p
  proof -
    have "p = 12 \<or> p = 13 \<or> p = 14 \<or> p = 15 \<or> 16 \<le> p" using that by linarith
    then show ?thesis by (auto simp: scenario_vals) (simp add: scenario_mem_def mem_of_def)
  qed
  then show ?thesis
    by (auto simp: CheckParam_def separate_def cells_def scenario_A_def scenario_B_def
        scenario_C_def scenario_C2_def)
qed

theorem scalar_kernels_agree_with_Origin_witness:
  "list_all (\<lambda>K. agrees_with_Origin K scenario_A scenario_B scenario_C scenario_mem \<and>
                 check_mode K scenario_A scenario_B scenario_C2 scenario_C scenario_mem)
           [Optimize1, Optimize2, Optimize3, Optimize4, Optimize7, Optimize8]"
  using scalar_kernels_agree_with_Origin [OF scenario_valid scenario_separate, of scenario_mem]
    scenario_check_hyps
  by (simp add: passes_check_def)

text \<open>Without the condition on the buffers the kernels differ: \<^verbatim>\<open>Origin\<close> and
  \<^verbatim>\<open>Optimize2\<close> read the elements of C that they have written so far in different
  orders.\<close>

theorem scalar_kernels_overlap_counterexample:
  "CheckParam overlap_A overlap_B overlap_C \<and>
   read_matrix overlap_C overlap_mem = [[0], [0]] \<and>
   read_matrix overlap_C (Origin overlap_A overlap_B overlap_C overlap_mem) = [[1], [1]] \<and>
   read_matrix overlap_C (Optimize2 overlap_A overlap_B overlap_C overlap_mem) = [[1], [0]] \<and>
   \<not> agrees_with_Origin Optimize2 overlap_A overlap_B overlap_C overlap_mem"
proof -
  have o: "elt overlap_C (Origin overlap_A overlap_B overlap_C overlap_mem) 1 0 = 1"
    using overlap_Origin by (simp add: read_matrix_def overlap_C_def upto.simps)
  have t: "elt overlap_C (Optimize2 overlap_A overlap_B overlap_C overlap_mem) 1 0 = 0"
    using overlap_Optimize2 by (simp add: read_matrix_def overlap_C_def upto.simps)
  have "\<not> agrees_with_Origin Optimize2 overlap_A overlap_B overlap_C overlap_mem"
  proof
    assume "agrees_with_Origin Optimize2 overlap_A overlap_B overlap_C overlap_mem"
    then have "\<bar>elt overlap_C (Optimize2 overlap_A overlap_B overlap_C overlap_mem) 1 0
        - elt overlap_C (Origin overlap_A overlap_B overlap_C overlap_mem) 1 0\<bar> \<le> EPSILON"
      by (simp add: agrees_with_Origin_def overlap_C_def)
    then show False by (simp add: o t EPSILON_def)
  qed
  moreover have "CheckParam overlap_A overlap_B overlap_C"
    by (simp add: CheckParam_def overlap_A_def overlap_B_def overlap_C_def)
  moreover have "read_matrix overlap_C overlap_mem = [[0], [0]]"
    by (simp add: overlap_simps)
  ultimately show ?thesis
    using overlap_Origin overlap_Optimize2 by (intro conjI)
qed

text \<open>The same holds for the vector kernels with remainder loops that store at \<open>j\<close>.\<close>

lemma simd_kernels_agree_with_Origin:
  assumes "CheckParam a b c" and "separate a b c"
  shows "list_all (\<lambda>K. agrees_with_Origin K a b c s \<and> passes_check K a b c s)
           [Optimize5, Optimize6, Optimize9]"
  using equivalentI [where K = Optimize5, OF assms eq_gemm(6) [OF assms]]
    equivalentI [where K = Optimize6, OF assms eq_gemm(7) [OF assms]]
    equivalentI [where K = Optimize9, OF assms eq_gemm(10) [OF assms]]
  by simp










end
